theory Spec2Isabelle
  imports Complex_Main "HOL-Library.Multiset" "HOL-Library.Sublist"
    "HOL-Library.List_Lexorder" "HOL-Library.Char_ord"
begin

section \<open>Data model\<close>

text \<open>
  The panel of \<^verbatim>\<open>src/src/components/CommentPanel.tsx\<close> receives \<^verbatim>\<open>comments: Comment[]\<close>.
  The interface \<^verbatim>\<open>Comment\<close> is imported from \<^verbatim>\<open>@/pages/Index\<close>; its fields are the ones
  the panel reads. Strings are lists of code units below 256; \<^verbatim>\<open>timestamp\<close> is a finite
  number (a real, which has every finite double), \<^verbatim>\<open>createdAt\<close> is the valid
  \<^verbatim>\<open>Date\<close>'s \<^verbatim>\<open>getTime()\<close>, in milliseconds; an optional field is an \<open>option\<close>.
\<close>

record Attachment =
  url :: string
  type_a :: string
  name :: string

record Comment =
  id_c :: string
  parentId :: "string option"
  text_c :: string
  author :: string
  createdAt :: int
  timestamp :: real
  attachments :: "Attachment list option"
  hasDrawing :: bool

text \<open>The object \<^verbatim>\<open>{ ...comment, commentNumber }\<close> that \<^verbatim>\<open>getTopLevelComments\<close> returns.\<close>

record NumberedComment = Comment +
  commentNumber :: int

text \<open>The state \<^verbatim>\<open>filters\<close> of the panel (\<^verbatim>\<open>CommentFilters\<close>).\<close>

record CommentFilters =
  annotations :: bool
  attachments_f :: bool
  completed :: bool
  incomplete :: bool
  unread :: bool
  mentionsAndReactions :: bool

section \<open>The JavaScript operations the panel uses\<close>

text \<open>\<^verbatim>\<open>!comment.parentId\<close>: \<^verbatim>\<open>undefined\<close> and the empty string are the falsy values of
  \<^verbatim>\<open>string | undefined\<close>.\<close>

definition falsy :: "string option \<Rightarrow> bool" where
  "falsy p = (case p of None \<Rightarrow> True | Some s \<Rightarrow> s = [])"

text \<open>\<^verbatim>\<open>String.prototype.toLowerCase\<close> on strings of code units below 256, where it maps
  each character on its own: the letters A to Z and the Latin-1 capitals U+00C0 to U+00DE
  (the multiplication sign U+00D7 apart) move up by 32. \<open>toLowerCase_utf16\<close> below is the
  function on 16-bit code units.\<close>

definition toLowerCase_char :: "char \<Rightarrow> char" where
  "toLowerCase_char c =
     (let n = (of_char c :: nat)
      in if (65 \<le> n \<and> n \<le> 90) \<or> (192 \<le> n \<and> n \<le> 222 \<and> n \<noteq> 215)
         then char_of (n + 32) else c)"

definition toLowerCase :: "string \<Rightarrow> string" where
  "toLowerCase s = map toLowerCase_char s"

text \<open>
  \<^verbatim>\<open>String.prototype.toLowerCase\<close> on strings of 16-bit code units, as numbers. It is the
  Unicode default case conversion: every code unit goes to its lower-case mapping, and the
  capital sigma U+03A3 goes to the final sigma U+03C2 when a cased letter is before it,
  with case-ignorable characters only in between, and no cased letter is after it in the
  same way. The three tables of the Unicode character database are written out for Basic
  Latin, Latin-1 Supplement and the Greek letters U+0391 to U+03C9; a code unit outside
  these ranges is not covered here and is left as it is.
\<close>

definition lowerUnit :: "nat \<Rightarrow> nat" where
  "lowerUnit c =
     (if (65 \<le> c \<and> c \<le> 90) \<or> (192 \<le> c \<and> c \<le> 222 \<and> c \<noteq> 215) \<or>
         (913 \<le> c \<and> c \<le> 939 \<and> c \<noteq> 930)
      then c + 32 else c)"

definition casedUnit :: "nat \<Rightarrow> bool" where
  "casedUnit c =
     ((65 \<le> c \<and> c \<le> 90) \<or> (97 \<le> c \<and> c \<le> 122) \<or> c = 170 \<or> c = 181 \<or> c = 186 \<or>
      (192 \<le> c \<and> c \<le> 255 \<and> c \<noteq> 215 \<and> c \<noteq> 247) \<or>
      (913 \<le> c \<and> c \<le> 969 \<and> c \<noteq> 930))"

definition caseIgnorableUnit :: "nat \<Rightarrow> bool" where
  "caseIgnorableUnit c = (c \<in> {39, 46, 58, 94, 96, 168, 173, 175, 180, 183, 184})"

text \<open>A cased letter, then case-ignorable characters only: read from the sigma outwards.\<close>

fun casedNext :: "nat list \<Rightarrow> bool" where
  "casedNext [] = False"
| "casedNext (c # cs) = (casedUnit c \<or> (caseIgnorableUnit c \<and> casedNext cs))"

text \<open>\<open>before\<close> holds the code units already read, the last one first.\<close>

fun lowerFrom :: "nat list \<Rightarrow> nat list \<Rightarrow> nat list" where
  "lowerFrom before [] = []"
| "lowerFrom before (c # rest) =
     (if c = 931 \<and> casedNext before \<and> \<not> casedNext rest then 962 else lowerUnit c) #
     lowerFrom (c # before) rest"

definition toLowerCase_utf16 :: "nat list \<Rightarrow> nat list" where
  "toLowerCase_utf16 s = lowerFrom [] s"

text \<open>\<^verbatim>\<open>String.prototype.includes\<close>: the needle starts at some position of the string.\<close>

fun includes_s :: "'u list \<Rightarrow> 'u list \<Rightarrow> bool" where
  "includes_s [] needle = (needle = [])"
| "includes_s (h # hay) needle = (prefix needle (h # hay) \<or> includes_s hay needle)"

text \<open>\<^verbatim>\<open>Array.prototype.findIndex\<close>: the first index whose element satisfies the predicate,
  \<open>-1\<close> when there is none.\<close>

fun findIndex :: "('a \<Rightarrow> bool) \<Rightarrow> 'a list \<Rightarrow> int" where
  "findIndex P [] = - 1"
| "findIndex P (x # xs) =
     (if P x then 0 else (let i = findIndex P xs in if i < 0 then - 1 else i + 1))"

text \<open>\<^verbatim>\<open>Array.prototype.sort\<close> with a comparator: \<open>a\<close> stays before \<open>b\<close> when
  \<open>cmp a b \<le> 0\<close>. The sort is stable (ECMAScript 2019), so on a consistent comparator its
  result is the one of the stable insertion sort.\<close>

fun sort_insert :: "('a \<Rightarrow> 'a \<Rightarrow> 'n::{zero,linorder}) \<Rightarrow> 'a \<Rightarrow> 'a list \<Rightarrow> 'a list" where
  "sort_insert cmp x [] = [x]"
| "sort_insert cmp x (y # ys) =
     (if cmp x y \<le> 0 then x # y # ys else y # sort_insert cmp x ys)"

fun array_sort :: "('a \<Rightarrow> 'a \<Rightarrow> 'n::{zero,linorder}) \<Rightarrow> 'a list \<Rightarrow> 'a list" where
  "array_sort cmp [] = []"
| "array_sort cmp (x # xs) = sort_insert cmp x (array_sort cmp xs)"

section \<open>The derivations of the comment panel\<close>

text \<open>
  The specification names \<^verbatim>\<open>getTopLevelComments\<close> \<^verbatim>\<open>deriveTopLevelView\<close>, \<^verbatim>\<open>getReplies\<close>
  \<^verbatim>\<open>repliesOf\<close> and \<^verbatim>\<open>getCommentCounts\<close> \<^verbatim>\<open>countsByType\<close>. The panel's props and state
  that the three functions read (\<^verbatim>\<open>comments\<close>, \<^verbatim>\<open>searchTerm\<close>, \<^verbatim>\<open>selectedCommentType\<close>,
  \<^verbatim>\<open>filters\<close>, \<^verbatim>\<open>sortBy\<close>) are arguments here; \<^verbatim>\<open>selectedCommentType\<close> and \<^verbatim>\<open>sortBy\<close> are
  strings, as they are when the code runs.
\<close>

text \<open>\<^verbatim>\<open>comment.text.includes('internal')\<close>.\<close>

definition isInternal :: "Comment \<Rightarrow> bool" where
  "isInternal comment = includes_s (text_c comment) ''internal''"

text \<open>The test of the search filter, lines 123 and 124, on the text and the author of a
  comment. The strings are lists of code units of any width, and \<open>lower\<close> is
  \<^verbatim>\<open>String.prototype.toLowerCase\<close> on them.\<close>

definition searchMatch :: "('u list \<Rightarrow> 'u list) \<Rightarrow> 'u list \<Rightarrow> 'u list \<Rightarrow> 'u list \<Rightarrow> bool" where
  "searchMatch lower searchTerm body author_name =
     (includes_s (lower body) (lower searchTerm) \<or>
      includes_s (lower author_name) (lower searchTerm))"

text \<open>The predicate of the search filter on a comment of the model, whose strings have
  code units below 256.\<close>

definition matchesSearch :: "string \<Rightarrow> Comment \<Rightarrow> bool" where
  "matchesSearch searchTerm comment =
     searchMatch toLowerCase searchTerm (text_c comment) (author comment)"

text \<open>\<^verbatim>\<open>comment.attachments && comment.attachments.length > 0\<close>.\<close>

definition hasAttachments :: "Comment \<Rightarrow> bool" where
  "hasAttachments comment =
     (case attachments comment of None \<Rightarrow> False | Some as \<Rightarrow> 0 < length as)"

text \<open>Lines 118 to 138 of \<^verbatim>\<open>getTopLevelComments\<close>: the four filters, each assignment to
  \<^verbatim>\<open>filteredComments\<close> a \<open>let\<close>.\<close>

definition filteredComments ::
  "Comment list \<Rightarrow> string \<Rightarrow> string \<Rightarrow> CommentFilters \<Rightarrow> Comment list" where
  "filteredComments comments searchTerm selectedCommentType filters =
     (let fc = filter (\<lambda>comment. falsy (parentId comment)) comments;
          fc = (if searchTerm \<noteq> [] then filter (matchesSearch searchTerm) fc else fc);
          fc = (if selectedCommentType = ''public''
                then filter (\<lambda>comment. \<not> isInternal comment) fc
                else if selectedCommentType = ''internal''
                then filter (\<lambda>comment. isInternal comment) fc
                else fc);
          fc = (if attachments_f filters then filter hasAttachments fc else fc)
      in fc)"

text \<open>Lines 141 to 156: the \<^verbatim>\<open>switch (sortBy)\<close>. \<^verbatim>\<open>String.prototype.localeCompare\<close> is the
  platform's collation, a parameter here.\<close>

definition sortedComments ::
  "(string \<Rightarrow> string \<Rightarrow> int) \<Rightarrow> string \<Rightarrow> Comment list \<Rightarrow> Comment list" where
  "sortedComments localeCompare sortBy fc =
     (if sortBy = ''oldest'' then array_sort (\<lambda>a b. createdAt a - createdAt b) fc
      else if sortBy = ''newest'' then array_sort (\<lambda>a b. createdAt b - createdAt a) fc
      else if sortBy = ''commenter''
      then array_sort (\<lambda>a b. localeCompare (author a) (author b)) fc
      else array_sort (\<lambda>a b. timestamp a - timestamp b) fc)"

text \<open>Lines 159 to 161: the numbering pass over the unfiltered \<^verbatim>\<open>comments\<close>.\<close>

definition allTopLevelByTimestamp :: "Comment list \<Rightarrow> Comment list" where
  "allTopLevelByTimestamp comments =
     array_sort (\<lambda>a b. timestamp a - timestamp b)
       (filter (\<lambda>comment. falsy (parentId comment) \<and> 0 \<le> timestamp comment) comments)"

text \<open>Line 164: the number of one comment.\<close>

definition numberOf :: "Comment list \<Rightarrow> Comment \<Rightarrow> int" where
  "numberOf comments comment =
     findIndex (\<lambda>c. id_c c = id_c comment) (allTopLevelByTimestamp comments) + 1"

definition getTopLevelComments ::
  "(string \<Rightarrow> string \<Rightarrow> int) \<Rightarrow> Comment list \<Rightarrow> string \<Rightarrow> string \<Rightarrow> CommentFilters \<Rightarrow> string
     \<Rightarrow> NumberedComment list" where
  "getTopLevelComments localeCompare comments searchTerm selectedCommentType filters sortBy =
     map (\<lambda>comment. Comment.extend comment
            (NumberedComment.fields (numberOf comments comment)))
       (sortedComments localeCompare sortBy
          (filteredComments comments searchTerm selectedCommentType filters))"

definition getReplies :: "Comment list \<Rightarrow> string \<Rightarrow> Comment list" where
  "getReplies comments pid = filter (\<lambda>comment. parentId comment = Some pid) comments"

text \<open>The object \<^verbatim>\<open>{ all, public, internal }\<close> of \<^verbatim>\<open>getCommentCounts\<close>.\<close>

record CommentCounts =
  all_n :: nat
  public_n :: nat
  internal_n :: nat

definition getCommentCounts :: "Comment list \<Rightarrow> CommentCounts" where
  "getCommentCounts comments =
     (let topLevel = filter (\<lambda>comment. falsy (parentId comment)) comments
      in \<lparr> all_n = length topLevel,
           public_n = length (filter (\<lambda>comment. \<not> isInternal comment) topLevel),
           internal_n = length (filter (\<lambda>comment. isInternal comment) topLevel) \<rparr>)"

text \<open>Lines 354 and 547 of the panel: every comment of the view is rendered with
  \<^verbatim>\<open>getReplies(comment.id)\<close> below it.\<close>

definition renderedThreads ::
  "(string \<Rightarrow> string \<Rightarrow> int) \<Rightarrow> Comment list \<Rightarrow> string \<Rightarrow> string \<Rightarrow> CommentFilters \<Rightarrow> string
     \<Rightarrow> (NumberedComment \<times> Comment list) list" where
  "renderedThreads localeCompare comments searchTerm selectedCommentType filters sortBy =
     map (\<lambda>comment. (comment, getReplies comments (id_c comment)))
       (getTopLevelComments localeCompare comments searchTerm selectedCommentType filters sortBy)"

text \<open>The comments of the rendered threads, one after the other: each comment of the view,
  without its number, then its replies.\<close>

definition renderedComments ::
  "(string \<Rightarrow> string \<Rightarrow> int) \<Rightarrow> Comment list \<Rightarrow> string \<Rightarrow> string \<Rightarrow> CommentFilters \<Rightarrow> string
     \<Rightarrow> Comment list" where
  "renderedComments localeCompare comments searchTerm selectedCommentType filters sortBy =
     concat (map (\<lambda>(comment, replies). Comment.truncate comment # replies)
       (renderedThreads localeCompare comments searchTerm selectedCommentType filters sortBy))"

section \<open>The derivations on a store\<close>

text \<open>
  The arrays and objects of the panel live in a store: \<^verbatim>\<open>comments\<close> is the address of an
  array of references to \<^verbatim>\<open>Comment\<close> objects. \<^verbatim>\<open>filter\<close> and \<^verbatim>\<open>map\<close> allocate a new array,
  \<^verbatim>\<open>sort\<close> writes the array it is called on, and \<^verbatim>\<open>{ ...comment, commentNumber }\<close>
  allocates a new object. An address is an index of the store; a new array or object is
  appended.
\<close>

record heap =
  commentObjs :: "Comment list"
  numberedObjs :: "NumberedComment list"
  arrays :: "nat list list"

text \<open>The comments an array of references to \<^verbatim>\<open>Comment\<close> objects holds, and the objects an
  array of the view holds.\<close>

definition deref :: "heap \<Rightarrow> nat \<Rightarrow> Comment list" where
  "deref h a = map (\<lambda>r. commentObjs h ! r) (arrays h ! a)"

definition deref_numbered :: "heap \<Rightarrow> nat \<Rightarrow> NumberedComment list" where
  "deref_numbered h a = map (\<lambda>r. numberedObjs h ! r) (arrays h ! a)"

definition array_filter_h :: "(Comment \<Rightarrow> bool) \<Rightarrow> nat \<Rightarrow> heap \<Rightarrow> nat \<times> heap" where
  "array_filter_h P a h =
     (length (arrays h),
      h\<lparr>arrays := arrays h @ [filter (\<lambda>r. P (commentObjs h ! r)) (arrays h ! a)]\<rparr>)"

definition array_sort_h ::
  "(Comment \<Rightarrow> Comment \<Rightarrow> 'n::{zero,linorder}) \<Rightarrow> nat \<Rightarrow> heap \<Rightarrow> nat \<times> heap" where
  "array_sort_h cmp a h =
     (a, h\<lparr>arrays := (arrays h)
            [a := array_sort (\<lambda>r s. cmp (commentObjs h ! r) (commentObjs h ! s)) (arrays h ! a)]\<rparr>)"

text \<open>The callback of the \<^verbatim>\<open>map\<close> of line 163 on one element: \<open>t\<close> is the address of
  \<^verbatim>\<open>allTopLevelByTimestamp\<close>.\<close>

definition number_h :: "nat \<Rightarrow> nat \<Rightarrow> heap \<Rightarrow> nat \<times> heap" where
  "number_h t r h =
     (let comment = commentObjs h ! r;
          commentNumber =
            findIndex (\<lambda>s. id_c (commentObjs h ! s) = id_c comment) (arrays h ! t) + 1
      in (length (numberedObjs h),
          h\<lparr>numberedObjs := numberedObjs h @
               [Comment.extend comment (NumberedComment.fields commentNumber)]\<rparr>))"

fun number_all_h :: "nat \<Rightarrow> nat list \<Rightarrow> heap \<Rightarrow> nat list \<times> heap" where
  "number_all_h t [] h = ([], h)"
| "number_all_h t (r # rs) h =
     (let (n, h1) = number_h t r h;
          (ns, h2) = number_all_h t rs h1
      in (n # ns, h2))"

definition array_map_number_h :: "nat \<Rightarrow> nat \<Rightarrow> heap \<Rightarrow> nat \<times> heap" where
  "array_map_number_h t a h =
     (let (ns, h1) = number_all_h t (arrays h ! a) h
      in (length (arrays h1), h1\<lparr>arrays := arrays h1 @ [ns]\<rparr>))"

text \<open>Lines 118 to 138 on the store.\<close>

definition filteredComments_h ::
  "nat \<Rightarrow> string \<Rightarrow> string \<Rightarrow> CommentFilters \<Rightarrow> heap \<Rightarrow> nat \<times> heap" where
  "filteredComments_h comments searchTerm selectedCommentType filters h =
     (let (fc, h1) = array_filter_h (\<lambda>comment. falsy (parentId comment)) comments h;
          (fc, h2) = (if searchTerm \<noteq> [] then array_filter_h (matchesSearch searchTerm) fc h1
                      else (fc, h1));
          (fc, h3) = (if selectedCommentType = ''public''
                      then array_filter_h (\<lambda>comment. \<not> isInternal comment) fc h2
                      else if selectedCommentType = ''internal''
                      then array_filter_h (\<lambda>comment. isInternal comment) fc h2
                      else (fc, h2))
      in if attachments_f filters then array_filter_h hasAttachments fc h3 else (fc, h3))"

text \<open>Lines 141 to 156 on the store: the array \<^verbatim>\<open>filteredComments\<close> is sorted in place.\<close>

definition sortedComments_h ::
  "(string \<Rightarrow> string \<Rightarrow> int) \<Rightarrow> string \<Rightarrow> nat \<Rightarrow> heap \<Rightarrow> nat \<times> heap" where
  "sortedComments_h localeCompare sortBy fc h =
     (if sortBy = ''oldest'' then array_sort_h (\<lambda>a b. createdAt a - createdAt b) fc h
      else if sortBy = ''newest'' then array_sort_h (\<lambda>a b. createdAt b - createdAt a) fc h
      else if sortBy = ''commenter''
      then array_sort_h (\<lambda>a b. localeCompare (author a) (author b)) fc h
      else array_sort_h (\<lambda>a b. timestamp a - timestamp b) fc h)"

definition getTopLevelComments_h ::
  "(string \<Rightarrow> string \<Rightarrow> int) \<Rightarrow> nat \<Rightarrow> string \<Rightarrow> string \<Rightarrow> CommentFilters \<Rightarrow> string \<Rightarrow> heap
     \<Rightarrow> nat \<times> heap" where
  "getTopLevelComments_h localeCompare comments searchTerm selectedCommentType filters sortBy h =
     (let (fc, h1) = filteredComments_h comments searchTerm selectedCommentType filters h;
          (sc, h2) = sortedComments_h localeCompare sortBy fc h1;
          (t0, h3) = array_filter_h
             (\<lambda>comment. falsy (parentId comment) \<and> 0 \<le> timestamp comment) comments h2;
          (t, h4) = array_sort_h (\<lambda>a b. timestamp a - timestamp b) t0 h3
      in array_map_number_h t sc h4)"

definition getReplies_h :: "nat \<Rightarrow> string \<Rightarrow> heap \<Rightarrow> nat \<times> heap" where
  "getReplies_h comments pid h =
     array_filter_h (\<lambda>comment. parentId comment = Some pid) comments h"

definition getCommentCounts_h :: "nat \<Rightarrow> heap \<Rightarrow> CommentCounts \<times> heap" where
  "getCommentCounts_h comments h =
     (let (topLevel, h1) = array_filter_h (\<lambda>comment. falsy (parentId comment)) comments h;
          (pub, h2) = array_filter_h (\<lambda>comment. \<not> isInternal comment) topLevel h1;
          (internal, h3) = array_filter_h (\<lambda>comment. isInternal comment) topLevel h2
      in (\<lparr> all_n = length (arrays h1 ! topLevel),
            public_n = length (arrays h2 ! pub),
            internal_n = length (arrays h3 ! internal) \<rparr>, h3))"

text \<open>What a call leaves of the store \<open>h\<close> in the store \<open>h'\<close>: every array and every
  object of \<open>h\<close> is in \<open>h'\<close> at its address, with the contents it had.\<close>

definition unchanged :: "heap \<Rightarrow> heap \<Rightarrow> bool" where
  "unchanged h h' =
     (take (length (arrays h)) (arrays h') = arrays h \<and>
      take (length (commentObjs h)) (commentObjs h') = commentObjs h \<and>
      take (length (numberedObjs h)) (numberedObjs h') = numberedObjs h)"

section \<open>The words of the specification\<close>

text \<open>
  Case-insensitive containment for strings of code units below 256. A capital letter and
  its small letter are the two cases of one letter: A to Z with a to z, and the Latin-1
  capitals U+00C0 to U+00D6 and U+00D8 to U+00DE with the small letters 32 code units
  above them. Two characters are the same up to case when they are equal or the two cases
  of one letter; no other characters are, so the sharp s is not \<^verbatim>\<open>SS\<close>. A string contains
  another one case-insensitively when one of its substrings is the other string up to the
  case of each character.
\<close>

definition capitalOf :: "char \<Rightarrow> char \<Rightarrow> bool" where
  "capitalOf u l =
     (((65 \<le> (of_char u :: nat) \<and> (of_char u :: nat) \<le> 90) \<or>
       (192 \<le> (of_char u :: nat) \<and> (of_char u :: nat) \<le> 214) \<or>
       (216 \<le> (of_char u :: nat) \<and> (of_char u :: nat) \<le> 222)) \<and>
      (of_char l :: nat) = of_char u + 32)"

definition sameLetter :: "char \<Rightarrow> char \<Rightarrow> bool" where
  "sameLetter a b = (a = b \<or> capitalOf a b \<or> capitalOf b a)"

definition equalIgnoringCase :: "string \<Rightarrow> string \<Rightarrow> bool" where
  "equalIgnoringCase s t = list_all2 sameLetter s t"

definition containsIgnoringCase :: "string \<Rightarrow> string \<Rightarrow> bool" where
  "containsIgnoringCase hay needle =
     list_ex (\<lambda>part. equalIgnoringCase part needle) (sublists hay)"

text \<open>A comparator is consistent when it orders its arguments: every two are comparable
  and the order is transitive.\<close>

definition consistent :: "('a \<Rightarrow> 'a \<Rightarrow> int) \<Rightarrow> bool" where
  "consistent cmp =
     ((\<forall>a b. cmp a b \<le> 0 \<or> cmp b a \<le> 0) \<and>
      (\<forall>a b c. cmp a b \<le> 0 \<and> cmp b c \<le> 0 \<longrightarrow> cmp a c \<le> 0))"

text \<open>
  The order \<^verbatim>\<open>String.prototype.localeCompare\<close> gives strings of ASCII letters in the root
  and the English collation: the letters decide without regard to their case, and between
  strings of the same letters the one with the small letter at the first difference is
  first (\<^verbatim>\<open>amy\<close>, \<^verbatim>\<open>Amy\<close>, \<^verbatim>\<open>bob\<close>, \<^verbatim>\<open>Zed\<close>). \<open>a < b\<close> on strings is the lexicographic
  order of the code units.
\<close>

definition letterCollation :: "string \<Rightarrow> string \<Rightarrow> int" where
  "letterCollation a b =
     (if toLowerCase a < toLowerCase b then - 1
      else if toLowerCase b < toLowerCase a then 1
      else if a = b then 0
      else if b < a then - 1 else 1)"

text \<open>A top-level comment has no \<^verbatim>\<open>parentId\<close>; a reply has one. Every reply resolves when
  its \<^verbatim>\<open>parentId\<close> is the \<^verbatim>\<open>id\<close> of a top-level comment of the collection.\<close>

definition isTopLevel :: "Comment \<Rightarrow> bool" where
  "isTopLevel c = falsy (parentId c)"

definition repliesResolve :: "Comment list \<Rightarrow> bool" where
  "repliesResolve comments =
     list_all (\<lambda>c. isTopLevel c \<or>
        list_ex (\<lambda>p. isTopLevel p \<and> parentId c = Some (id_c p)) comments) comments"

text \<open>The four filters of lines 118 to 138 as one predicate.\<close>

definition keeps :: "string \<Rightarrow> string \<Rightarrow> CommentFilters \<Rightarrow> Comment \<Rightarrow> bool" where
  "keeps s t f c =
     (falsy (parentId c) \<and> (s = [] \<or> matchesSearch s c) \<and>
      (if t = ''public'' then \<not> isInternal c else t = ''internal'' \<longrightarrow> isInternal c) \<and>
      (\<not> attachments_f f \<or> hasAttachments c))"

section \<open>Concrete collections\<close>

text \<open>The filter state of a new panel, and Scenario A of the specification with its
  creation times set.\<close>

definition noFilters :: CommentFilters where
  "noFilters = \<lparr> annotations = False, attachments_f = False, completed = False,
     incomplete = False, unread = False, mentionsAndReactions = False \<rparr>"

definition scenarioA :: "Comment list" where
  "scenarioA =
     [\<lparr> id_c = ''1'', parentId = None, text_c = ''hello'', author = ''Bob'',
        createdAt = 1000, timestamp = 5, attachments = None, hasDrawing = False \<rparr>,
      \<lparr> id_c = ''2'', parentId = None, text_c = ''internal note'', author = ''Amy'',
        createdAt = 2000, timestamp = 2, attachments = Some [], hasDrawing = False \<rparr>]"

text \<open>A collection with a general comment, a comment with an attachment, and a reply.\<close>

definition sampleComments :: "Comment list" where
  "sampleComments =
     [\<lparr> id_c = ''1'', parentId = None, text_c = ''hello'', author = ''Bob'',
        createdAt = 1000, timestamp = 5, attachments = None, hasDrawing = False \<rparr>,
      \<lparr> id_c = ''2'', parentId = None, text_c = ''internal note'', author = ''Amy'',
        createdAt = 2000, timestamp = 2,
        attachments = Some [\<lparr> url = ''blob:1'', type_a = ''image/png'', name = ''a.png'' \<rparr>],
        hasDrawing = True \<rparr>,
      \<lparr> id_c = ''3'', parentId = None, text_c = ''general'', author = ''Cy'',
        createdAt = 3000, timestamp = - 1, attachments = Some [], hasDrawing = False \<rparr>,
      \<lparr> id_c = ''4'', parentId = Some ''1'', text_c = ''a reply'', author = ''Amy'',
        createdAt = 4000, timestamp = 5, attachments = None, hasDrawing = False \<rparr>]"

text \<open>A collection in which a comment has the empty string for its id, and another one
  has it for its \<^verbatim>\<open>parentId\<close>.\<close>

definition emptyIdComments :: "Comment list" where
  "emptyIdComments =
     [\<lparr> id_c = [], parentId = None, text_c = ''first'', author = ''Bob'',
        createdAt = 1000, timestamp = 1, attachments = None, hasDrawing = False \<rparr>,
      \<lparr> id_c = ''b'', parentId = Some [], text_c = ''second'', author = ''Amy'',
        createdAt = 2000, timestamp = 2, attachments = None, hasDrawing = False \<rparr>]"

text \<open>Two top-level comments whose authors differ in the case of the first letter.\<close>

definition zedAmyComments :: "Comment list" where
  "zedAmyComments =
     [\<lparr> id_c = ''1'', parentId = None, text_c = ''first'', author = ''Zed'',
        createdAt = 1000, timestamp = 1, attachments = None, hasDrawing = False \<rparr>,
      \<lparr> id_c = ''2'', parentId = None, text_c = ''second'', author = ''amy'',
        createdAt = 2000, timestamp = 2, attachments = None, hasDrawing = False \<rparr>]"

text \<open>The Greek word \<^verbatim>\<open>U+039F U+0394 U+039F U+03A3\<close> in capitals, the capital sigma
  alone, and the name \<^verbatim>\<open>Bob\<close>, as code units.\<close>

definition odosUnits :: "nat list" where
  "odosUnits = [927, 916, 927, 931]"

definition sigmaUnits :: "nat list" where
  "sigmaUnits = [931]"

definition bobUnits :: "nat list" where
  "bobUnits = [66, 111, 98]"

text \<open>A store whose only array holds the comments of \<open>sampleComments\<close>.\<close>

definition sampleHeap :: heap where
  "sampleHeap = \<lparr> commentObjs = sampleComments, numberedObjs = [], arrays = [[0, 1, 2, 3]] \<rparr>"

section \<open>Facts about the array operations\<close>

lemma mset_sort_insert: "mset (sort_insert cmp x xs) = add_mset x (mset xs)"
  by (induction xs) auto

lemma mset_array_sort: "mset (array_sort cmp xs) = mset xs"
  by (induction xs) (auto simp: mset_sort_insert)

lemma set_array_sort: "set (array_sort cmp xs) = set xs"
  by (metis mset_array_sort set_mset_mset)

lemma length_array_sort: "length (array_sort cmp xs) = length xs"
  by (metis mset_array_sort size_mset)

lemma filter_sort_insert_out:
  "\<not> P x \<Longrightarrow> filter P (sort_insert cmp x xs) = filter P xs"
  by (induction xs) auto

lemma filter_sort_insert_in:
  "P x \<Longrightarrow> (\<And>y. y \<in> set xs \<Longrightarrow> P y \<Longrightarrow> cmp x y \<le> 0)
     \<Longrightarrow> filter P (sort_insert cmp x xs) = x # filter P xs"
  by (induction xs) auto

lemma stable_array_sort:
  assumes "\<And>x y. key x = key y \<Longrightarrow> cmp x y \<le> 0"
  shows "filter (\<lambda>x. key x = k) (array_sort cmp xs) = filter (\<lambda>x. key x = k) xs"
proof (induction xs)
  case Nil
  show ?case by simp
next
  case (Cons x xs)
  show ?case
  proof (cases "key x = k")
    case True
    have "filter (\<lambda>x. key x = k) (sort_insert cmp x (array_sort cmp xs))
            = x # filter (\<lambda>x. key x = k) (array_sort cmp xs)"
      by (rule filter_sort_insert_in) (use True assms in auto)
    with True Cons show ?thesis by simp
  next
    case False
    then show ?thesis using Cons by (simp add: filter_sort_insert_out)
  qed
qed

lemma sorted_wrt_sort_insert:
  assumes tot: "\<And>a b. cmp a b \<le> 0 \<or> cmp b a \<le> 0"
    and trans: "\<And>a b c. cmp a b \<le> 0 \<Longrightarrow> cmp b c \<le> 0 \<Longrightarrow> cmp a c \<le> 0"
    and "sorted_wrt (\<lambda>a b. cmp a b \<le> 0) xs"
  shows "sorted_wrt (\<lambda>a b. cmp a b \<le> 0) (sort_insert cmp x xs)"
  using assms(3)
proof (induction xs)
  case Nil
  show ?case by simp
next
  case (Cons y ys)
  show ?case
  proof (cases "cmp x y \<le> 0")
    case True
    then have "\<forall>z\<in>set ys. cmp x z \<le> 0" using Cons.prems trans by auto
    with True Cons.prems show ?thesis by simp
  next
    case False
    then have yx: "cmp y x \<le> 0" using tot by blast
    have "set (sort_insert cmp x ys) = insert x (set ys)"
      by (metis mset_sort_insert set_mset_mset set_mset_add_mset_insert)
    with False yx Cons show ?thesis by auto
  qed
qed

lemma sorted_wrt_array_sort:
  assumes tot: "\<And>a b. cmp a b \<le> 0 \<or> cmp b a \<le> 0"
    and trans: "\<And>a b c. cmp a b \<le> 0 \<Longrightarrow> cmp b c \<le> 0 \<Longrightarrow> cmp a c \<le> 0"
  shows "sorted_wrt (\<lambda>a b. cmp a b \<le> 0) (array_sort cmp xs)"
  by (induction xs) (simp_all add: sorted_wrt_sort_insert [OF tot trans])

lemma sorted_key_array_sort:
  fixes key :: "'a \<Rightarrow> 'k::linorder"
  assumes "\<And>a b. (cmp a b \<le> 0) = (key a \<le> key b)"
  shows "sorted (map key (array_sort cmp xs))"
proof -
  have "sorted_wrt (\<lambda>a b. cmp a b \<le> 0) (array_sort cmp xs)"
    by (rule sorted_wrt_array_sort) (use assms in auto)
  then show ?thesis by (simp add: sorted_map assms)
qed

lemma includes_s_sublist: "includes_s hay needle = sublist needle hay"
  by (induction hay) (simp_all add: sublist_Cons_right)

lemma findIndex_bounds: "- 1 \<le> findIndex P xs \<and> findIndex P xs < int (length xs)"
  by (induction xs) (auto simp: Let_def)

lemma findIndex_neg: "(findIndex P xs < 0) = (\<forall>x\<in>set xs. \<not> P x)"
proof (induction xs)
  case Nil
  show ?case by simp
next
  case (Cons x xs)
  then show ?case by (auto simp: Let_def)
qed

lemma findIndex_none: "(findIndex P xs = - 1) = (\<forall>x\<in>set xs. \<not> P x)"
  using findIndex_bounds [of P xs] findIndex_neg [of P xs] by auto

lemma findIndex_first:
  "0 \<le> findIndex P xs \<Longrightarrow>
     P (xs ! nat (findIndex P xs)) \<and> (\<forall>j < nat (findIndex P xs). \<not> P (xs ! j))"
proof (induction xs)
  case Nil
  then show ?case by simp
next
  case (Cons x xs)
  show ?case
  proof (cases "P x")
    case True
    then show ?thesis by simp
  next
    case False
    with Cons.prems have nn: "0 \<le> findIndex P xs" by (simp add: Let_def split: if_splits)
    then have eq: "findIndex P (x # xs) = findIndex P xs + 1" using False by (simp add: Let_def)
    have n: "nat (findIndex P xs + 1) = Suc (nat (findIndex P xs))" using nn by simp
    from Cons.IH [OF nn] False show ?thesis
      unfolding eq n by (auto simp: nth_Cons split: nat.splits)
  qed
qed

section \<open>Facts about the view\<close>

lemma truncate_extend [simp]:
  "Comment.truncate (Comment.extend c (NumberedComment.fields n)) = c"
  by (simp add: Comment.defs NumberedComment.defs)

lemma commentNumber_extend [simp]:
  "commentNumber (Comment.extend c (NumberedComment.fields n)) = n"
  by (simp add: Comment.defs NumberedComment.defs)

lemma id_c_extend [simp]: "id_c (Comment.extend c e) = id_c c"
  by (simp add: Comment.defs)

lemma timestamp_extend [simp]: "timestamp (Comment.extend c e) = timestamp c"
  by (simp add: Comment.defs)

lemma fields_truncate: "id_c (Comment.truncate x) = id_c x" "timestamp (Comment.truncate x) = timestamp x"
  "attachments (Comment.truncate x) = attachments x" "author (Comment.truncate x) = author x"
  "createdAt (Comment.truncate x) = createdAt x" "text_c (Comment.truncate x) = text_c x"
  "parentId (Comment.truncate x) = parentId x"
  by (simp_all add: Comment.defs)

lemma view_truncate:
  "map Comment.truncate (getTopLevelComments lc comments s t f so) =
     sortedComments lc so (filteredComments comments s t f)"
  by (simp add: getTopLevelComments_def comp_def)

lemma view_number:
  "x \<in> set (getTopLevelComments lc comments s t f so) \<Longrightarrow>
     commentNumber x = numberOf comments (Comment.truncate x)"
  by (auto simp: getTopLevelComments_def)

lemma mset_sortedComments: "mset (sortedComments lc so fc) = mset fc"
  by (simp add: sortedComments_def mset_array_sort)

lemma filteredComments_filter: "filteredComments comments s t f = filter (keeps s t f) comments"
  by (auto simp: filteredComments_def keeps_def Let_def intro: filter_cong)

lemma isInternal_sublist: "isInternal c = sublist ''internal'' (text_c c)"
  by (simp add: isInternal_def includes_s_sublist)

lemma mset_view:
  "mset (map Comment.truncate (getTopLevelComments lc comments s t f so)) =
     filter_mset (keeps s t f) (mset comments)"
  by (simp only: view_truncate mset_sortedComments filteredComments_filter mset_filter)

lemma of_char_toLowerCase_char:
  "(of_char (toLowerCase_char c) :: nat) =
     (if (65 \<le> (of_char c :: nat) \<and> (of_char c :: nat) \<le> 90) \<or>
         (192 \<le> (of_char c :: nat) \<and> (of_char c :: nat) \<le> 222 \<and> (of_char c :: nat) \<noteq> 215)
      then of_char c + 32 else of_char c)"
  by (simp add: toLowerCase_char_def Let_def)

lemma sameLetter_toLowerCase_char:
  "sameLetter a b = (toLowerCase_char a = toLowerCase_char b)"
proof -
  have "(toLowerCase_char a = toLowerCase_char b) =
      ((of_char (toLowerCase_char a) :: nat) = of_char (toLowerCase_char b))"
    by simp
  also have "\<dots> = sameLetter a b"
    unfolding of_char_toLowerCase_char sameLetter_def capitalOf_def
    using of_char_eq_iff [of a b, where ?'a = nat] by (auto split: if_splits)
  finally show ?thesis by simp
qed

lemma equalIgnoringCase_map: "equalIgnoringCase a b = (toLowerCase a = toLowerCase b)"
proof -
  have "list_all2 (\<lambda>x y. toLowerCase_char x = toLowerCase_char y) a b =
      list_all2 (=) (map toLowerCase_char a) (map toLowerCase_char b)"
    by (simp add: list.rel_map)
  moreover have "sameLetter = (\<lambda>x y. toLowerCase_char x = toLowerCase_char y)"
    by (simp add: fun_eq_iff sameLetter_toLowerCase_char)
  ultimately show ?thesis by (simp add: equalIgnoringCase_def toLowerCase_def list.rel_eq)
qed

lemma lowerUnit_below_256:
  "n < 256 \<Longrightarrow>
     lowerUnit n = (if (65 \<le> n \<and> n \<le> 90) \<or> (192 \<le> n \<and> n \<le> 222 \<and> n \<noteq> 215) then n + 32 else n)"
  by (simp add: lowerUnit_def)

lemma lowerUnit_of_char: "lowerUnit (of_char c) = of_char (toLowerCase_char c)"
  unfolding of_char_toLowerCase_char by (rule lowerUnit_below_256) simp

lemma lowerFrom_of_char: "lowerFrom before (map of_char s) = map of_char (toLowerCase s)"
proof (induction s arbitrary: before)
  case Nil
  show ?case by (simp add: toLowerCase_def)
next
  case (Cons c s)
  have ne: "n < 256 \<Longrightarrow> n \<noteq> 931" for n :: nat by simp
  have "(of_char c :: nat) \<noteq> 931" by (rule ne) simp
  then show ?case
    using Cons.IH [of "of_char c # before"]
    by (simp add: toLowerCase_def lowerUnit_of_char)
qed

lemma toLowerCase_utf16_of_char:
  "toLowerCase_utf16 (map of_char s) = map of_char (toLowerCase s)"
  by (simp add: toLowerCase_utf16_def lowerFrom_of_char)

lemma sublist_map_iff:
  "sublist (map g needle) (map g hay) = (\<exists>part. sublist part hay \<and> map g part = map g needle)"
proof
  assume "sublist (map g needle) (map g hay)"
  then obtain ps ss where "map g hay = ps @ (map g needle @ ss)" by (auto simp: sublist_def)
  then have "\<exists>h1 h23. hay = h1 @ h23 \<and> ps = map g h1 \<and> map g needle @ ss = map g h23"
    by (simp add: map_eq_append_conv)
  then obtain h1 h23 where h: "hay = h1 @ h23" and r: "map g needle @ ss = map g h23"
    by blast
  from r have "\<exists>h2 h3. h23 = h2 @ h3 \<and> map g needle = map g h2 \<and> ss = map g h3"
    by (simp add: append_eq_map_conv)
  then obtain h2 h3 where "h23 = h2 @ h3" and "map g h2 = map g needle"
    by auto
  with h have "sublist h2 hay \<and> map g h2 = map g needle"
    by (auto simp: sublist_def)
  then show "\<exists>part. sublist part hay \<and> map g part = map g needle" ..
next
  assume "\<exists>part. sublist part hay \<and> map g part = map g needle"
  then obtain part ps ss where "hay = ps @ part @ ss" "map g part = map g needle"
    by (auto simp: sublist_def)
  then have "map g hay = map g ps @ map g needle @ map g ss" by simp
  then show "sublist (map g needle) (map g hay)" unfolding sublist_def by blast
qed

lemma includes_s_ignoring_case:
  "includes_s (toLowerCase hay) (toLowerCase needle) = containsIgnoringCase hay needle"
  by (auto simp: includes_s_sublist containsIgnoringCase_def list_ex_iff equalIgnoringCase_map
      toLowerCase_def sublist_map_iff)

lemma includes_s_map_inj:
  assumes "inj g"
  shows "includes_s (map g hay) (map g needle) = includes_s hay needle"
  unfolding includes_s_sublist sublist_map_iff
  by (auto simp: inj_map_eq_map [OF assms])

lemma searchMatch_of_char:
  "searchMatch toLowerCase_utf16 (map of_char s) (map of_char b) (map of_char a) =
     searchMatch toLowerCase s b (a :: string)"
proof -
  have "inj (of_char :: char \<Rightarrow> nat)" by (simp add: inj_def)
  then show ?thesis
    by (simp add: searchMatch_def toLowerCase_utf16_of_char includes_s_map_inj)
qed

lemma toLowerCase_examples:
  "toLowerCase ''Bob'' = ''bob''" "toLowerCase ''bob'' = ''bob''" "toLowerCase ''BOB'' = ''bob''"
  "toLowerCase ''Amy'' = ''amy''" "toLowerCase ''hello'' = ''hello''"
  "toLowerCase ''internal note'' = ''internal note''"
  "toLowerCase ''Cy'' = ''cy''" "toLowerCase ''Zed'' = ''zed''" "toLowerCase ''amy'' = ''amy''"
  by code_simp+

lemma set_view:
  "Comment.truncate ` set (getTopLevelComments lc comments s t f so) =
     {c \<in> set comments. keeps s t f c}"
proof -
  have "set (map Comment.truncate (getTopLevelComments lc comments s t f so)) =
      set_mset (filter_mset (keeps s t f) (mset comments))"
    by (metis mset_view set_mset_mset)
  then show ?thesis by simp
qed

lemma matchesSearch_ignoring_case:
  "matchesSearch s c = (containsIgnoringCase (text_c c) s \<or> containsIgnoringCase (author c) s)"
  by (simp add: matchesSearch_def searchMatch_def includes_s_ignoring_case)

lemma matchesSearch_empty: "matchesSearch [] c"
  by (cases "text_c c") (simp_all add: matchesSearch_def searchMatch_def toLowerCase_def)

section \<open>Facts about the order of the view\<close>

lemma createdAt_extend [simp]: "createdAt (Comment.extend c e) = createdAt c"
  by (simp add: Comment.defs)

lemma author_extend [simp]: "author (Comment.extend c e) = author c"
  by (simp add: Comment.defs)

lemma consistent_refl: "consistent cmp \<Longrightarrow> cmp a a \<le> 0"
  unfolding consistent_def by blast

lemma letterCollation_le:
  "(letterCollation a b \<le> 0) =
     (toLowerCase a < toLowerCase b \<or> (toLowerCase a = toLowerCase b \<and> b \<le> a))"
  unfolding letterCollation_def by auto

lemma consistent_letterCollation: "consistent letterCollation"
  unfolding consistent_def letterCollation_le by auto

lemma sortedComments_oldest:
  "sorted_wrt (\<lambda>a b. createdAt a \<le> createdAt b) (sortedComments lc ''oldest'' fc)"
proof -
  have "sorted_wrt (\<lambda>a b. createdAt a - createdAt b \<le> 0)
      (array_sort (\<lambda>a b :: Comment. createdAt a - createdAt b) fc)"
    by (rule sorted_wrt_array_sort) auto
  then show ?thesis by (simp add: sortedComments_def)
qed

lemma sortedComments_newest:
  "sorted_wrt (\<lambda>a b. createdAt b \<le> createdAt a) (sortedComments lc ''newest'' fc)"
proof -
  have "sorted_wrt (\<lambda>a b. createdAt b - createdAt a \<le> 0)
      (array_sort (\<lambda>a b :: Comment. createdAt b - createdAt a) fc)"
    by (rule sorted_wrt_array_sort) auto
  then show ?thesis by (simp add: sortedComments_def)
qed

lemma sortedComments_commenter:
  assumes "consistent lc"
  shows "sorted_wrt (\<lambda>a b. lc (author a) (author b) \<le> 0) (sortedComments lc ''commenter'' fc)"
proof -
  have "sorted_wrt (\<lambda>a b. lc (author a) (author b) \<le> 0)
      (array_sort (\<lambda>a b :: Comment. lc (author a) (author b)) fc)"
    by (rule sorted_wrt_array_sort) (use assms in \<open>unfold consistent_def, blast+\<close>)
  then show ?thesis by (simp add: sortedComments_def)
qed

lemma sortedComments_timecode:
  assumes "so \<notin> {''oldest'', ''newest'', ''commenter''}"
  shows "sorted_wrt (\<lambda>a b. timestamp a \<le> timestamp b) (sortedComments lc so fc)"
proof -
  have "sorted_wrt (\<lambda>a b. timestamp a - timestamp b \<le> 0)
      (array_sort (\<lambda>a b :: Comment. timestamp a - timestamp b) fc)"
    by (rule sorted_wrt_array_sort) auto
  then show ?thesis using assms by (simp add: sortedComments_def)
qed

lemma sortedComments_stable_createdAt:
  assumes "so = ''oldest'' \<or> so = ''newest''"
  shows "filter (\<lambda>c. createdAt c = k) (sortedComments lc so fc) = filter (\<lambda>c. createdAt c = k) fc"
  using assms
    stable_array_sort [of createdAt "\<lambda>a b :: Comment. createdAt a - createdAt b" k fc]
    stable_array_sort [of createdAt "\<lambda>a b :: Comment. createdAt b - createdAt a" k fc]
  by (auto simp: sortedComments_def)

lemma sortedComments_stable_author:
  assumes "consistent lc"
  shows "filter (\<lambda>c. author c = k) (sortedComments lc ''commenter'' fc) =
      filter (\<lambda>c. author c = k) fc"
  using stable_array_sort [of author "\<lambda>a b :: Comment. lc (author a) (author b)" k fc]
    consistent_refl [OF assms]
  by (simp add: sortedComments_def)

lemma sortedComments_stable_timestamp:
  assumes "so \<notin> {''oldest'', ''newest'', ''commenter''}"
  shows "filter (\<lambda>c. timestamp c = k) (sortedComments lc so fc) = filter (\<lambda>c. timestamp c = k) fc"
  using assms stable_array_sort [of timestamp "\<lambda>a b :: Comment. timestamp a - timestamp b" k fc]
  by (simp add: sortedComments_def)

lemma view_fields:
  "map createdAt (getTopLevelComments lc comments s t f so) =
     map createdAt (sortedComments lc so (filteredComments comments s t f))"
  "map author (getTopLevelComments lc comments s t f so) =
     map author (sortedComments lc so (filteredComments comments s t f))"
  "map timestamp (getTopLevelComments lc comments s t f so) =
     map timestamp (sortedComments lc so (filteredComments comments s t f))"
  by (simp_all add: getTopLevelComments_def comp_def)

lemma general_first:
  assumes "sorted (map timestamp V)" and "i < length V" and "j < length V"
    and "timestamp (V ! i) < 0" and "0 \<le> timestamp (V ! j)"
  shows "i < j"
proof (rule ccontr)
  assume "\<not> i < j"
  then have "j \<le> i" by simp
  with assms(1,2) have "map timestamp V ! j \<le> map timestamp V ! i"
    by (simp add: sorted_iff_nth_mono del: nth_map)
  with assms show False by simp
qed

section \<open>Facts about the numbers\<close>

lemma view_number_id:
  assumes "x \<in> set (getTopLevelComments lc comments s t f so)"
  shows "commentNumber x =
    findIndex (\<lambda>c. id_c c = id_c x) (allTopLevelByTimestamp comments) + 1"
  using view_number [OF assms] by (simp add: numberOf_def fields_truncate)

lemma view_member:
  assumes "x \<in> set (getTopLevelComments lc comments s t f so)"
  shows "Comment.truncate x \<in> set comments \<and> isTopLevel (Comment.truncate x)"
proof -
  from assms have "Comment.truncate x \<in>
      Comment.truncate ` set (getTopLevelComments lc comments s t f so)"
    by (rule imageI)
  then show ?thesis unfolding set_view by (simp add: keeps_def isTopLevel_def)
qed

lemma pass_mset:
  "mset (allTopLevelByTimestamp comments) =
     filter_mset (\<lambda>c. isTopLevel c \<and> 0 \<le> timestamp c) (mset comments)"
  by (simp add: allTopLevelByTimestamp_def mset_array_sort isTopLevel_def)

lemma pass_set:
  "set (allTopLevelByTimestamp comments) =
     {c \<in> set comments. isTopLevel c \<and> 0 \<le> timestamp c}"
  by (simp add: allTopLevelByTimestamp_def set_array_sort isTopLevel_def)

lemma pass_sorted: "sorted (map timestamp (allTopLevelByTimestamp comments))"
proof -
  have "sorted_wrt (\<lambda>a b. timestamp a - timestamp b \<le> 0)
      (array_sort (\<lambda>a b :: Comment. timestamp a - timestamp b)
         (filter (\<lambda>comment. falsy (parentId comment) \<and> 0 \<le> timestamp comment) comments))"
    by (rule sorted_wrt_array_sort) auto
  then show ?thesis by (simp add: allTopLevelByTimestamp_def sorted_wrt_map)
qed

lemma pass_stable:
  "filter (\<lambda>c. timestamp c = k) (allTopLevelByTimestamp comments) =
     filter (\<lambda>c. timestamp c = k \<and> isTopLevel c \<and> 0 \<le> timestamp c) comments"
proof -
  have "filter (\<lambda>c. timestamp c = k) (allTopLevelByTimestamp comments) =
      filter (\<lambda>c. timestamp c = k)
        (filter (\<lambda>comment. falsy (parentId comment) \<and> 0 \<le> timestamp comment) comments)"
    unfolding allTopLevelByTimestamp_def
    by (rule stable_array_sort) simp
  then show ?thesis by (simp add: isTopLevel_def conj_commute conj_left_commute)
qed

lemma rank_found:
  assumes "\<exists>c \<in> set pass. P c" and "n = findIndex P pass + 1"
  shows "1 \<le> n \<and> n \<le> int (length pass) \<and> P (pass ! nat (n - 1)) \<and>
    (\<forall>j < nat (n - 1). \<not> P (pass ! j))"
proof -
  from assms(1) have "\<not> findIndex P pass < 0" by (simp add: findIndex_neg)
  then have nn: "0 \<le> findIndex P pass" by simp
  from findIndex_first [OF nn] findIndex_bounds [of P pass] nn assms(2)
  show ?thesis by simp
qed

lemma rank_missing:
  assumes "\<forall>c \<in> set pass. \<not> P c" and "n = findIndex P pass + 1"
  shows "n = 0"
  using assms findIndex_none [of P pass] by simp

lemma number_ranked:
  assumes x: "x \<in> set (getTopLevelComments lc comments s t f so)"
    and "id_c x \<in> id_c ` set (allTopLevelByTimestamp comments)"
  shows "1 \<le> commentNumber x \<and>
     commentNumber x \<le> int (length (allTopLevelByTimestamp comments)) \<and>
     id_c (allTopLevelByTimestamp comments ! nat (commentNumber x - 1)) = id_c x \<and>
     (\<forall>j < nat (commentNumber x - 1). id_c (allTopLevelByTimestamp comments ! j) \<noteq> id_c x)"
proof -
  from assms(2) have "\<exists>c \<in> set (allTopLevelByTimestamp comments). id_c c = id_c x" by auto
  from rank_found [OF this view_number_id [OF x]] show ?thesis .
qed

lemma number_unranked:
  assumes x: "x \<in> set (getTopLevelComments lc comments s t f so)"
    and "id_c x \<notin> id_c ` set (allTopLevelByTimestamp comments)"
  shows "commentNumber x = 0"
proof -
  from assms(2) have "\<forall>c \<in> set (allTopLevelByTimestamp comments). \<not> id_c c = id_c x" by force
  from rank_missing [OF this view_number_id [OF x]] show ?thesis .
qed

lemma number_anchored:
  assumes x: "x \<in> set (getTopLevelComments lc comments s t f so)"
    and d: "distinct (map id_c comments)" and ts: "0 \<le> timestamp x"
  shows "1 \<le> commentNumber x \<and>
     allTopLevelByTimestamp comments ! nat (commentNumber x - 1) = Comment.truncate x"
proof -
  let ?pass = "allTopLevelByTimestamp comments"
  from view_member [OF x] ts have m: "Comment.truncate x \<in> set ?pass"
    by (simp add: pass_set fields_truncate)
  then have "id_c x \<in> id_c ` set ?pass"
    by (metis fields_truncate(1) imageI)
  from number_ranked [OF x this]
  have r: "1 \<le> commentNumber x" "commentNumber x \<le> int (length ?pass)"
    "id_c (?pass ! nat (commentNumber x - 1)) = id_c x" by simp_all
  from r(1,2) have "nat (commentNumber x - 1) < length ?pass" by simp
  then have "?pass ! nat (commentNumber x - 1) \<in> set ?pass" by (rule nth_mem)
  then have a: "?pass ! nat (commentNumber x - 1) \<in> set comments" by (simp add: pass_set)
  from view_member [OF x] have b: "Comment.truncate x \<in> set comments" by simp
  from d have "inj_on id_c (set comments)" by (simp add: distinct_map)
  from inj_onD [OF this _ a b] r(3) have "?pass ! nat (commentNumber x - 1) = Comment.truncate x"
    by (simp add: fields_truncate)
  with r(1) show ?thesis by simp
qed

lemma number_general:
  assumes x: "x \<in> set (getTopLevelComments lc comments s t f so)"
    and d: "distinct (map id_c comments)" and ts: "timestamp x < 0"
  shows "commentNumber x = 0"
proof (rule number_unranked [OF x], rule notI)
  assume "id_c x \<in> id_c ` set (allTopLevelByTimestamp comments)"
  then obtain c where c: "c \<in> set (allTopLevelByTimestamp comments)" "id_c c = id_c x" by auto
  then have a: "c \<in> set comments" and nn: "0 \<le> timestamp c" by (simp_all add: pass_set)
  from view_member [OF x] have b: "Comment.truncate x \<in> set comments" by simp
  from d have "inj_on id_c (set comments)" by (simp add: distinct_map)
  from inj_onD [OF this _ a b] c(2) have "c = Comment.truncate x" by (simp add: fields_truncate)
  with nn ts show False by (simp add: fields_truncate)
qed

lemma number_invariant:
  assumes "x \<in> set (getTopLevelComments lc comments s t f so)"
    and "x' \<in> set (getTopLevelComments lc' comments s' t' f' so')"
    and "id_c x' = id_c x"
  shows "commentNumber x' = commentNumber x"
  using view_number_id [OF assms(1)] view_number_id [OF assms(2)] assms(3) by simp

section \<open>Facts about the rendered threads\<close>

lemma filter_mset_all: "(filter_mset P M = M) = (\<forall>x \<in># M. P x)"
  by (auto simp: filter_mset_eq_conv)

lemma filter_mset_disjoint_union:
  assumes "\<And>x. x \<in># M \<Longrightarrow> \<not> (P x \<and> Q x)"
  shows "filter_mset P M + filter_mset Q M = filter_mset (\<lambda>x. P x \<or> Q x) M"
proof (rule multiset_eqI)
  fix x
  show "count (filter_mset P M + filter_mset Q M) x = count (filter_mset (\<lambda>x. P x \<or> Q x) M) x"
    using assms [of x] by (cases "x \<in># M") (auto simp: not_in_iff)
qed

lemma mset_concat_heads:
  "mset (concat (map (\<lambda>x. g x # h x) xs)) = mset (map g xs) + mset (concat (map h xs))"
  by (induction xs) simp_all

lemma mset_renderedComments:
  "mset (renderedComments lc comments s t f so) =
     mset (map Comment.truncate (getTopLevelComments lc comments s t f so)) +
     mset (concat (map (\<lambda>p. getReplies comments (id_c p))
       (map Comment.truncate (getTopLevelComments lc comments s t f so))))"
proof -
  have "renderedComments lc comments s t f so =
      concat (map (\<lambda>x. Comment.truncate x # getReplies comments (id_c (Comment.truncate x)))
        (getTopLevelComments lc comments s t f so))"
    by (simp add: renderedComments_def renderedThreads_def comp_def fields_truncate)
  then show ?thesis
    by (simp add: mset_concat_heads comp_def)
qed

lemma mset_replies_concat:
  assumes "distinct (map id_c ps)"
  shows "mset (concat (map (\<lambda>p. getReplies comments (id_c p)) ps)) =
     filter_mset (\<lambda>c. \<exists>p \<in> set ps. parentId c = Some (id_c p)) (mset comments)"
  using assms
proof (induction ps)
  case Nil
  show ?case by simp
next
  case (Cons p ps)
  have disj: "\<not> (parentId c = Some (id_c p) \<and> (\<exists>q \<in> set ps. parentId c = Some (id_c q)))" for c
    using Cons.prems by auto
  have "mset (concat (map (\<lambda>p. getReplies comments (id_c p)) (p # ps))) =
      filter_mset (\<lambda>c. parentId c = Some (id_c p)) (mset comments) +
      filter_mset (\<lambda>c. \<exists>q \<in> set ps. parentId c = Some (id_c q)) (mset comments)"
    using Cons by (simp add: getReplies_def)
  also have "\<dots> = filter_mset (\<lambda>c. parentId c = Some (id_c p) \<or>
      (\<exists>q \<in> set ps. parentId c = Some (id_c q))) (mset comments)"
    by (rule filter_mset_disjoint_union) (use disj in blast)
  finally show ?case by simp
qed

lemma distinct_ids_view:
  assumes "distinct (map id_c comments)"
  shows "distinct (map id_c (map Comment.truncate (getTopLevelComments lc comments s t f so)))"
proof -
  let ?F = "filteredComments comments s t f"
  have "distinct (map id_c ?F)"
    unfolding filteredComments_filter using assms by (rule distinct_map_filter)
  moreover have "mset (map id_c (sortedComments lc so ?F)) = mset (map id_c ?F)"
    by (simp add: mset_sortedComments)
  ultimately have "distinct (map id_c (sortedComments lc so ?F))"
    by (metis mset_eq_imp_distinct_iff)
  then show ?thesis by (simp only: view_truncate)
qed

lemma rendered_as_filter:
  assumes d: "distinct (map id_c comments)" and e: "[] \<notin> id_c ` set comments"
  shows "mset (renderedComments lc comments s t f so) =
     filter_mset (\<lambda>c. keeps s t f c \<or>
        (\<exists>p \<in> set comments. keeps s t f p \<and> parentId c = Some (id_c p))) (mset comments)"
proof -
  let ?V = "map Comment.truncate (getTopLevelComments lc comments s t f so)"
  have sv: "set ?V = {c \<in> set comments. keeps s t f c}"
    using set_view [of lc comments s t f so] by simp
  have "mset (renderedComments lc comments s t f so) =
      filter_mset (keeps s t f) (mset comments) +
      filter_mset (\<lambda>c. \<exists>p \<in> set ?V. parentId c = Some (id_c p)) (mset comments)"
    unfolding mset_renderedComments mset_replies_concat [OF distinct_ids_view [OF d]]
    by (simp only: mset_view)
  also have "\<dots> = filter_mset (\<lambda>c. keeps s t f c \<or>
      (\<exists>p \<in> set ?V. parentId c = Some (id_c p))) (mset comments)"
  proof (rule filter_mset_disjoint_union)
    fix c assume "c \<in># mset comments"
    show "\<not> (keeps s t f c \<and> (\<exists>p \<in> set ?V. parentId c = Some (id_c p)))"
    proof
      assume h: "keeps s t f c \<and> (\<exists>p \<in> set ?V. parentId c = Some (id_c p))"
      then obtain p where p: "p \<in> set comments" "parentId c = Some (id_c p)"
        unfolding sv by blast
      from h have "falsy (parentId c)" by (simp add: keeps_def)
      with p(2) have "id_c p = []" by (simp add: falsy_def)
      with p(1) e show False by force
    qed
  qed
  also have "\<dots> = filter_mset (\<lambda>c. keeps s t f c \<or>
        (\<exists>p \<in> set comments. keeps s t f p \<and> parentId c = Some (id_c p))) (mset comments)"
    unfolding sv by (rule filter_mset_cong) auto
  finally show ?thesis .
qed

lemma partition_iff_kept_and_resolved:
  assumes d: "distinct (map id_c comments)" and e: "[] \<notin> id_c ` set comments"
  shows "(mset (renderedComments lc comments s t f so) = mset comments) =
     ((\<forall>c \<in> set comments. isTopLevel c \<longrightarrow> keeps s t f c) \<and> repliesResolve comments)"
proof -
  have top: "isTopLevel c" if "keeps s t f c" for c
    using that by (simp add: keeps_def isTopLevel_def)
  have child: "\<not> isTopLevel c" if "p \<in> set comments" "parentId c = Some (id_c p)" for c p
    using that e by (force simp: isTopLevel_def falsy_def)
  have "(mset (renderedComments lc comments s t f so) = mset comments) =
      (\<forall>c \<in> set comments. keeps s t f c \<or>
        (\<exists>p \<in> set comments. keeps s t f p \<and> parentId c = Some (id_c p)))"
    unfolding rendered_as_filter [OF d e] filter_mset_all by simp
  also have "\<dots> = ((\<forall>c \<in> set comments. isTopLevel c \<longrightarrow> keeps s t f c) \<and>
      repliesResolve comments)"
    unfolding repliesResolve_def list_all_iff list_ex_iff
    using top child by blast
  finally show ?thesis .
qed

lemma keeps_no_filter:
  assumes "s = []" and "t \<notin> {''public'', ''internal''}" and "\<not> attachments_f f"
  shows "keeps s t f c = isTopLevel c"
  using assms by (simp add: keeps_def isTopLevel_def)

lemma in_view_iff:
  "(c \<in> Comment.truncate ` set (getTopLevelComments lc comments s t f so)) =
     (c \<in> set comments \<and> keeps s t f c)"
  unfolding set_view by simp

section \<open>Facts about the store\<close>

lemma unchanged_refl: "unchanged h h"
  by (simp add: unchanged_def)

lemma unchanged_lengths:
  assumes "unchanged h0 h"
  shows "length (arrays h0) \<le> length (arrays h)"
proof -
  from assms have "length (take (length (arrays h0)) (arrays h)) = length (arrays h0)"
    by (simp add: unchanged_def)
  then show ?thesis by simp
qed

lemma unchanged_nth:
  assumes "unchanged h0 h" and "a < length (arrays h0)"
  shows "arrays h ! a = arrays h0 ! a"
proof -
  from assms(1) have "take (length (arrays h0)) (arrays h) = arrays h0"
    by (simp add: unchanged_def)
  then have "arrays h0 ! a = take (length (arrays h0)) (arrays h) ! a" by simp
  also have "\<dots> = arrays h ! a" using assms(2) by simp
  finally show ?thesis by simp
qed

lemma filter_h_fst: "fst (array_filter_h P a h) = length (arrays h)"
  by (simp add: array_filter_h_def)

lemma filter_h_arrays:
  "arrays (snd (array_filter_h P a h)) =
     arrays h @ [filter (\<lambda>r. P (commentObjs h ! r)) (arrays h ! a)]"
  by (simp add: array_filter_h_def)

lemma filter_h_objs:
  "commentObjs (snd (array_filter_h P a h)) = commentObjs h"
  "numberedObjs (snd (array_filter_h P a h)) = numberedObjs h"
  by (simp_all add: array_filter_h_def)

lemma filter_h_unchanged:
  assumes "unchanged h0 h"
  shows "unchanged h0 (snd (array_filter_h P a h))"
  using assms unchanged_lengths [OF assms]
  by (simp add: unchanged_def filter_h_arrays filter_h_objs)

lemma filter_h_deref:
  "deref (snd (array_filter_h P a h)) (fst (array_filter_h P a h)) = filter P (deref h a)"
  by (simp add: deref_def filter_h_fst filter_h_arrays filter_h_objs filter_map comp_def)

lemma filter_h_deref_old:
  "b < length (arrays h) \<Longrightarrow> deref (snd (array_filter_h P a h)) b = deref h b"
  by (simp add: deref_def filter_h_arrays filter_h_objs nth_append)

lemma sort_h_fst: "fst (array_sort_h cmp a h) = a"
  by (simp add: array_sort_h_def)

lemma sort_h_arrays:
  "arrays (snd (array_sort_h cmp a h)) = (arrays h)
     [a := array_sort (\<lambda>r s. cmp (commentObjs h ! r) (commentObjs h ! s)) (arrays h ! a)]"
  by (simp add: array_sort_h_def)

lemma sort_h_objs:
  "commentObjs (snd (array_sort_h cmp a h)) = commentObjs h"
  "numberedObjs (snd (array_sort_h cmp a h)) = numberedObjs h"
  by (simp_all add: array_sort_h_def)

lemma sort_h_unchanged:
  assumes "unchanged h0 h" and "length (arrays h0) \<le> a"
  shows "unchanged h0 (snd (array_sort_h cmp a h))"
  using assms by (simp add: unchanged_def sort_h_arrays sort_h_objs)

lemma sort_insert_map:
  "map g (sort_insert (\<lambda>r s. cmp (g r) (g s)) x xs) = sort_insert cmp (g x) (map g xs)"
  by (induction xs) simp_all

lemma array_sort_map:
  "map g (array_sort (\<lambda>r s. cmp (g r) (g s)) xs) = array_sort cmp (map g xs)"
  by (induction xs) (simp_all add: sort_insert_map)

lemma sort_h_deref:
  assumes "a < length (arrays h)"
  shows "deref (snd (array_sort_h cmp a h)) a = array_sort cmp (deref h a)"
  using assms
  by (simp add: deref_def sort_h_arrays sort_h_objs array_sort_map)

lemma sort_h_deref_other:
  "b \<noteq> a \<Longrightarrow> deref (snd (array_sort_h cmp a h)) b = deref h b"
  by (simp add: deref_def sort_h_arrays sort_h_objs)

lemma sort_h_length: "length (arrays (snd (array_sort_h cmp a h))) = length (arrays h)"
  by (simp add: sort_h_arrays)

lemma filter_h_length:
  "length (arrays (snd (array_filter_h P a h))) = Suc (length (arrays h))"
  by (simp add: filter_h_arrays)

lemma filteredComments_h_deref:
  "deref (snd (filteredComments_h a s t f h)) (fst (filteredComments_h a s t f h)) =
     filteredComments (deref h a) s t f"
  by (simp add: filteredComments_h_def filteredComments_def Let_def split_beta filter_h_deref)

lemma filteredComments_h_unchanged:
  assumes "unchanged h0 h"
  shows "unchanged h0 (snd (filteredComments_h a s t f h))"
  using assms
  by (simp add: filteredComments_h_def Let_def split_beta filter_h_unchanged)

lemma filteredComments_h_fresh:
  "length (arrays h) \<le> fst (filteredComments_h a s t f h) \<and>
   fst (filteredComments_h a s t f h) < length (arrays (snd (filteredComments_h a s t f h)))"
  by (simp add: filteredComments_h_def Let_def split_beta filter_h_fst filter_h_length)

lemma filteredComments_h_objs:
  "commentObjs (snd (filteredComments_h a s t f h)) = commentObjs h"
  "numberedObjs (snd (filteredComments_h a s t f h)) = numberedObjs h"
  by (simp_all add: filteredComments_h_def Let_def split_beta filter_h_objs)

lemma sortedComments_h_fst: "fst (sortedComments_h lc so fc h) = fc"
  by (simp add: sortedComments_h_def sort_h_fst)

lemma sortedComments_h_deref:
  assumes "fc < length (arrays h)"
  shows "deref (snd (sortedComments_h lc so fc h)) fc = sortedComments lc so (deref h fc)"
  using assms by (simp add: sortedComments_h_def sortedComments_def sort_h_deref)

lemma sortedComments_h_deref_other:
  "b \<noteq> fc \<Longrightarrow> deref (snd (sortedComments_h lc so fc h)) b = deref h b"
  by (simp add: sortedComments_h_def sort_h_deref_other)

lemma sortedComments_h_unchanged:
  assumes "unchanged h0 h" and "length (arrays h0) \<le> fc"
  shows "unchanged h0 (snd (sortedComments_h lc so fc h))"
  using assms by (simp add: sortedComments_h_def sort_h_unchanged)

lemma sortedComments_h_length:
  "length (arrays (snd (sortedComments_h lc so fc h))) = length (arrays h)"
  by (simp add: sortedComments_h_def sort_h_length)

lemma sortedComments_h_objs:
  "commentObjs (snd (sortedComments_h lc so fc h)) = commentObjs h"
  "numberedObjs (snd (sortedComments_h lc so fc h)) = numberedObjs h"
  by (simp_all add: sortedComments_h_def sort_h_objs)

text \<open>The numbered copies.\<close>

lemma upt_from: "[L ..< L + Suc n] = L # [Suc L ..< Suc L + n]"
  by (simp add: upt_conv_Cons)

lemma nth_append_upt: "map (\<lambda>i. (xs @ ys) ! i) [length xs ..< length xs + length ys] = ys"
  by (rule nth_equalityI) (simp_all add: nth_append)

lemma number_all_h_closed:
  "number_all_h t rs h =
     ([length (numberedObjs h) ..< length (numberedObjs h) + length rs],
      h\<lparr>numberedObjs := numberedObjs h @
        map (\<lambda>r. Comment.extend (commentObjs h ! r) (NumberedComment.fields
          (findIndex (\<lambda>s. id_c (commentObjs h ! s) = id_c (commentObjs h ! r)) (arrays h ! t) + 1)))
          rs\<rparr>)"
proof (induction rs arbitrary: h)
  case Nil
  show ?case by simp
next
  case (Cons r rs)
  have "[length (numberedObjs h) ..< length (numberedObjs h) + length (r # rs)] =
      length (numberedObjs h) # [Suc (length (numberedObjs h)) ..<
        Suc (length (numberedObjs h)) + length rs]"
    using upt_from [of "length (numberedObjs h)" "length rs"] by simp
  then show ?case
    by (simp add: Cons.IH number_h_def Let_def del: upt_Suc)
qed

lemma findIndex_map: "findIndex P (map g xs) = findIndex (\<lambda>x. P (g x)) xs"
  by (induction xs) simp_all

lemma map_number_h_arrays:
  "arrays (snd (array_map_number_h t a h)) =
     arrays h @ [[length (numberedObjs h) ..< length (numberedObjs h) + length (arrays h ! a)]]"
  by (simp add: array_map_number_h_def number_all_h_closed)

lemma map_number_h_fst: "fst (array_map_number_h t a h) = length (arrays h)"
  by (simp add: array_map_number_h_def number_all_h_closed)

lemma map_number_h_objs:
  "commentObjs (snd (array_map_number_h t a h)) = commentObjs h"
  "numberedObjs (snd (array_map_number_h t a h)) = numberedObjs h @
     map (\<lambda>c. Comment.extend c (NumberedComment.fields
        (findIndex (\<lambda>c'. id_c c' = id_c c) (deref h t) + 1))) (deref h a)"
  by (simp_all add: array_map_number_h_def number_all_h_closed deref_def findIndex_map comp_def)

lemma map_number_h_unchanged:
  assumes "unchanged h0 h"
  shows "unchanged h0 (snd (array_map_number_h t a h))"
proof -
  from assms have "length (numberedObjs h0) \<le> length (numberedObjs h)"
    by (metis unchanged_def length_take min.cobounded2 min.commute)
  with assms unchanged_lengths [OF assms] show ?thesis
    by (simp add: unchanged_def map_number_h_arrays map_number_h_objs)
qed

lemma map_number_h_deref:
  "deref_numbered (snd (array_map_number_h t a h)) (fst (array_map_number_h t a h)) =
     map (\<lambda>c. Comment.extend c (NumberedComment.fields
        (findIndex (\<lambda>c'. id_c c' = id_c c) (deref h t) + 1))) (deref h a)"
proof -
  let ?objs = "map (\<lambda>c. Comment.extend c (NumberedComment.fields
        (findIndex (\<lambda>c'. id_c c' = id_c c) (deref h t) + 1))) (deref h a)"
  let ?L = "length (numberedObjs h)"
  have len: "length (arrays h ! a) = length ?objs" by (simp add: deref_def)
  have "deref_numbered (snd (array_map_number_h t a h)) (fst (array_map_number_h t a h)) =
      map (\<lambda>i. (numberedObjs h @ ?objs) ! i) [?L ..< ?L + length ?objs]"
    unfolding deref_numbered_def map_number_h_fst map_number_h_arrays map_number_h_objs len
    by (simp only: nth_append_length)
  also have "\<dots> = ?objs"
    by (rule nth_append_upt)
  finally show ?thesis .
qed

lemma map_number_h_fresh:
  "\<forall>r \<in> set (arrays (snd (array_map_number_h t a h)) ! fst (array_map_number_h t a h)).
     length (numberedObjs h) \<le> r"
  by (simp add: map_number_h_fst map_number_h_arrays)

lemma deref_same:
  assumes "commentObjs h' = commentObjs h" and "arrays h' ! a = arrays h ! a"
  shows "deref h' a = deref h a"
  using assms by (simp add: deref_def)

lemma getTopLevelComments_h_facts:
  fixes h :: heap and lc a s t f so
  defines "r \<equiv> getTopLevelComments_h lc a s t f so h"
  shows "unchanged h (snd r)"
    and "length (arrays h) \<le> fst r"
    and "\<forall>i \<in> set (arrays (snd r) ! fst r). length (numberedObjs h) \<le> i"
    and "a < length (arrays h) \<Longrightarrow>
      deref_numbered (snd r) (fst r) = getTopLevelComments lc (deref h a) s t f so"
proof -
  define fc where "fc = fst (filteredComments_h a s t f h)"
  define h1 where "h1 = snd (filteredComments_h a s t f h)"
  define h2 where "h2 = snd (sortedComments_h lc so fc h1)"
  define t0 where "t0 = length (arrays h2)"
  define h3 where "h3 = snd (array_filter_h
    (\<lambda>comment. falsy (parentId comment) \<and> 0 \<le> timestamp comment) a h2)"
  define h4 where "h4 = snd (array_sort_h (\<lambda>a b :: Comment. timestamp a - timestamp b) t0 h3)"
  have r: "r = array_map_number_h t0 fc h4"
    unfolding r_def getTopLevelComments_h_def h4_def h3_def t0_def h2_def h1_def fc_def
    by (simp add: split_beta Let_def sortedComments_h_fst sort_h_fst filter_h_fst)
  have u1: "unchanged h h1"
    unfolding h1_def by (rule filteredComments_h_unchanged [OF unchanged_refl])
  have fresh: "length (arrays h) \<le> fc" "fc < length (arrays h1)"
    unfolding fc_def h1_def using filteredComments_h_fresh [of h a s t f] by simp_all
  have u2: "unchanged h h2"
    unfolding h2_def by (rule sortedComments_h_unchanged [OF u1 fresh(1)])
  have l2: "length (arrays h2) = length (arrays h1)"
    unfolding h2_def by (rule sortedComments_h_length)
  have u3: "unchanged h h3"
    unfolding h3_def by (rule filter_h_unchanged [OF u2])
  have l3: "length (arrays h3) = Suc t0"
    unfolding h3_def t0_def by (rule filter_h_length)
  have t0: "length (arrays h) \<le> t0"
    unfolding t0_def by (rule unchanged_lengths [OF u2])
  have u4: "unchanged h h4"
    unfolding h4_def by (rule sort_h_unchanged [OF u3 t0])
  have o4: "numberedObjs h4 = numberedObjs h" "commentObjs h4 = commentObjs h"
    unfolding h4_def h3_def h2_def h1_def
    by (simp_all add: sort_h_objs filter_h_objs sortedComments_h_objs filteredComments_h_objs)
  show "unchanged h (snd r)"
    unfolding r by (rule map_number_h_unchanged [OF u4])
  show "length (arrays h) \<le> fst r"
    unfolding r map_number_h_fst using unchanged_lengths [OF u4] .
  show "\<forall>i \<in> set (arrays (snd r) ! fst r). length (numberedObjs h) \<le> i"
    unfolding r using map_number_h_fresh [of t0 fc h4] by (simp only: o4)
  show "deref_numbered (snd r) (fst r) = getTopLevelComments lc (deref h a) s t f so"
    if a: "a < length (arrays h)"
  proof -
    have d1: "deref h1 fc = filteredComments (deref h a) s t f"
      unfolding h1_def fc_def by (rule filteredComments_h_deref)
    have d2: "deref h2 fc = sortedComments lc so (deref h1 fc)"
      unfolding h2_def by (rule sortedComments_h_deref [OF fresh(2)])
    have "deref h2 a = deref h a"
      by (rule deref_same)
        (simp add: h2_def h1_def sortedComments_h_objs filteredComments_h_objs,
          rule unchanged_nth [OF u2 a])
    then have d3: "deref h3 t0 = filter (\<lambda>comment. falsy (parentId comment) \<and> 0 \<le> timestamp comment)
        (deref h a)"
      using filter_h_deref [of "\<lambda>comment. falsy (parentId comment) \<and> 0 \<le> timestamp comment" a h2]
      by (simp add: h3_def t0_def filter_h_fst)
    have fc2: "fc < length (arrays h2)" using fresh(2) l2 by simp
    have d3': "deref h3 fc = deref h2 fc"
      unfolding h3_def by (rule filter_h_deref_old [OF fc2])
    have d4: "deref h4 t0 = array_sort (\<lambda>a b. timestamp a - timestamp b) (deref h3 t0)"
      unfolding h4_def by (rule sort_h_deref) (simp add: l3)
    have "fc \<noteq> t0" using fc2 by (simp add: t0_def)
    then have d4': "deref h4 fc = deref h3 fc"
      unfolding h4_def by (rule sort_h_deref_other)
    have pass: "deref h4 t0 = allTopLevelByTimestamp (deref h a)"
      by (simp add: d4 d3 allTopLevelByTimestamp_def)
    have view: "deref h4 fc = sortedComments lc so (filteredComments (deref h a) s t f)"
      by (simp add: d4' d3' d2 d1)
    show ?thesis
      unfolding r map_number_h_deref pass view
      by (simp add: getTopLevelComments_def numberOf_def)
  qed
qed

lemma getReplies_h_facts:
  "unchanged h (snd (getReplies_h a pid h))"
  "deref (snd (getReplies_h a pid h)) (fst (getReplies_h a pid h)) = getReplies (deref h a) pid"
  by (simp_all add: getReplies_h_def getReplies_def filter_h_deref
      filter_h_unchanged [OF unchanged_refl])

lemma length_deref: "length (arrays h ! a) = length (deref h a)"
  by (simp add: deref_def)

lemma getCommentCounts_h_facts:
  "unchanged h (snd (getCommentCounts_h a h))"
  "fst (getCommentCounts_h a h) = getCommentCounts (deref h a)"
proof -
  let ?top = "\<lambda>comment :: Comment. falsy (parentId comment)"
  define tl where "tl = length (arrays h)"
  define h1 where "h1 = snd (array_filter_h ?top a h)"
  define h2 where "h2 = snd (array_filter_h (\<lambda>comment. \<not> isInternal comment) tl h1)"
  define h3 where "h3 = snd (array_filter_h (\<lambda>comment. isInternal comment) tl h2)"
  have r: "getCommentCounts_h a h =
      (\<lparr> all_n = length (arrays h1 ! tl), public_n = length (arrays h2 ! length (arrays h1)),
         internal_n = length (arrays h3 ! length (arrays h2)) \<rparr>, h3)"
    unfolding getCommentCounts_h_def h3_def h2_def h1_def tl_def
    by (simp add: split_beta Let_def filter_h_fst)
  have u1: "unchanged h h1" unfolding h1_def by (rule filter_h_unchanged [OF unchanged_refl])
  have u2: "unchanged h h2" unfolding h2_def by (rule filter_h_unchanged [OF u1])
  have u3: "unchanged h h3" unfolding h3_def by (rule filter_h_unchanged [OF u2])
  show "unchanged h (snd (getCommentCounts_h a h))" unfolding r using u3 by simp
  have d1: "deref h1 tl = filter ?top (deref h a)"
    using filter_h_deref [of ?top a h] by (simp add: h1_def tl_def filter_h_fst)
  have l1: "length (arrays h1) = Suc tl"
    unfolding h1_def tl_def by (rule filter_h_length)
  have d2: "deref h2 (length (arrays h1)) = filter (\<lambda>comment. \<not> isInternal comment) (deref h1 tl)"
    using filter_h_deref [of "\<lambda>comment. \<not> isInternal comment" tl h1]
    by (simp add: h2_def filter_h_fst)
  have d2': "deref h2 tl = deref h1 tl"
    unfolding h2_def by (rule filter_h_deref_old) (simp add: l1)
  have d3: "deref h3 (length (arrays h2)) = filter (\<lambda>comment. isInternal comment) (deref h2 tl)"
    using filter_h_deref [of "\<lambda>comment. isInternal comment" tl h2]
    by (simp add: h3_def filter_h_fst)
  show "fst (getCommentCounts_h a h) = getCommentCounts (deref h a)"
    unfolding r length_deref d3 d2 d2' d1
    by (simp add: getCommentCounts_def Let_def)
qed

section \<open>Comment numbers\<close>

text \<open>
  C1. The numbering pass \<^verbatim>\<open>allTopLevelByTimestamp\<close> holds the top-level comments of the
  unfiltered collection with \<open>timestamp \<ge> 0\<close>, in ascending order of timestamp, ties in
  the order of the collection. Every comment of the view whose id is in the pass carries
  the 1-based position of the first comment of the pass with that id; a comment whose id
  is not in the pass carries 0, which is no number (the panel shows G for it). With unique
  ids, a time-anchored comment of the view carries its own 1-based position in the pass and
  a general comment carries 0. The number depends on the collection and the id alone: two
  views of one collection, under any search terms, type filters, advanced filters and sort
  options, give a comment the same number.
\<close>

theorem numbering_by_timestamp:
  "(let pass = allTopLevelByTimestamp comments;
        V = getTopLevelComments lc comments s t f so
    in mset pass = filter_mset (\<lambda>c. isTopLevel c \<and> 0 \<le> timestamp c) (mset comments) \<and>
       sorted (map timestamp pass) \<and>
       (\<forall>k. filter (\<lambda>c. timestamp c = k) pass =
            filter (\<lambda>c. timestamp c = k \<and> isTopLevel c \<and> 0 \<le> timestamp c) comments) \<and>
       (\<forall>x \<in> set V.
          (id_c x \<in> id_c ` set pass \<longrightarrow>
             1 \<le> commentNumber x \<and> commentNumber x \<le> int (length pass) \<and>
             id_c (pass ! nat (commentNumber x - 1)) = id_c x \<and>
             (\<forall>j < nat (commentNumber x - 1). id_c (pass ! j) \<noteq> id_c x)) \<and>
          (id_c x \<notin> id_c ` set pass \<longrightarrow> commentNumber x = 0) \<and>
          (distinct (map id_c comments) \<and> 0 \<le> timestamp x \<longrightarrow>
             1 \<le> commentNumber x \<and> pass ! nat (commentNumber x - 1) = Comment.truncate x) \<and>
          (distinct (map id_c comments) \<and> timestamp x < 0 \<longrightarrow> commentNumber x = 0) \<and>
          (\<forall>x' \<in> set (getTopLevelComments lc' comments s' t' f' so').
             id_c x' = id_c x \<longrightarrow> commentNumber x' = commentNumber x)))"
  unfolding Let_def
proof (intro conjI allI ballI impI)
  show "mset (allTopLevelByTimestamp comments) =
      filter_mset (\<lambda>c. isTopLevel c \<and> 0 \<le> timestamp c) (mset comments)"
    by (rule pass_mset)
  show "sorted (map timestamp (allTopLevelByTimestamp comments))"
    by (rule pass_sorted)
  show "filter (\<lambda>c. timestamp c = k) (allTopLevelByTimestamp comments) =
      filter (\<lambda>c. timestamp c = k \<and> isTopLevel c \<and> 0 \<le> timestamp c) comments" for k
    by (rule pass_stable)
next
  fix x assume x: "x \<in> set (getTopLevelComments lc comments s t f so)"
    and "id_c x \<in> id_c ` set (allTopLevelByTimestamp comments)"
  note r = number_ranked [OF this]
  show "1 \<le> commentNumber x" using r by simp
  show "commentNumber x \<le> int (length (allTopLevelByTimestamp comments))" using r by simp
  show "id_c (allTopLevelByTimestamp comments ! nat (commentNumber x - 1)) = id_c x"
    using r by simp
  show "j < nat (commentNumber x - 1) \<Longrightarrow> id_c (allTopLevelByTimestamp comments ! j) \<noteq> id_c x"
    for j using r by simp
next
  fix x assume "x \<in> set (getTopLevelComments lc comments s t f so)"
    and "id_c x \<notin> id_c ` set (allTopLevelByTimestamp comments)"
  then show "commentNumber x = 0" by (rule number_unranked)
next
  fix x assume x: "x \<in> set (getTopLevelComments lc comments s t f so)"
    and "distinct (map id_c comments) \<and> 0 \<le> timestamp x"
  then have r: "1 \<le> commentNumber x \<and>
     allTopLevelByTimestamp comments ! nat (commentNumber x - 1) = Comment.truncate x"
    using number_anchored by blast
  show "1 \<le> commentNumber x" using r by simp
  show "allTopLevelByTimestamp comments ! nat (commentNumber x - 1) = Comment.truncate x"
    using r by simp
next
  fix x assume x: "x \<in> set (getTopLevelComments lc comments s t f so)"
    and "distinct (map id_c comments) \<and> timestamp x < 0"
  then show "commentNumber x = 0" using number_general by blast
next
  fix x x' assume "x \<in> set (getTopLevelComments lc comments s t f so)"
    and "x' \<in> set (getTopLevelComments lc' comments s' t' f' so')"
    and "id_c x' = id_c x"
  then show "commentNumber x' = commentNumber x" by (rule number_invariant)
qed

theorem numbering_by_timestamp_witness:
  "distinct (map id_c sampleComments) \<and>
   map (\<lambda>x. (id_c x, commentNumber x))
     (getTopLevelComments letterCollation sampleComments [] ''all'' noFilters ''newest'') =
     [(''3'', 0), (''2'', 1), (''1'', 2)] \<and>
   map (\<lambda>x. (id_c x, commentNumber x))
     (getTopLevelComments letterCollation sampleComments [] ''public'' noFilters ''commenter'') =
     [(''1'', 2), (''3'', 0)] \<and>
   timestamp (hd (getTopLevelComments letterCollation sampleComments [] ''all'' noFilters
     ''newest'')) < 0 \<and>
   commentNumber (hd (getTopLevelComments letterCollation sampleComments [] ''all'' noFilters
     ''newest'')) = 0"
proof -
  let ?V = "getTopLevelComments letterCollation sampleComments [] ''all'' noFilters ''newest''"
  have d: "distinct (map id_c sampleComments)"
    by (simp add: sampleComments_def)
  have v: "map (\<lambda>x. (id_c x, commentNumber x)) ?V = [(''3'', 0), (''2'', 1), (''1'', 2)]"
    by (simp add: getTopLevelComments_def sortedComments_def filteredComments_def falsy_def
        sampleComments_def noFilters_def numberOf_def allTopLevelByTimestamp_def comp_def)
  have w: "map (\<lambda>x. (id_c x, commentNumber x))
     (getTopLevelComments letterCollation sampleComments [] ''public'' noFilters ''commenter'') =
     [(''1'', 2), (''3'', 0)]"
    by (simp add: getTopLevelComments_def sortedComments_def filteredComments_def falsy_def
        sampleComments_def noFilters_def numberOf_def allTopLevelByTimestamp_def comp_def
        letterCollation_def toLowerCase_examples isInternal_def)
  have ts: "map timestamp ?V = [- 1, 2, 5]"
    by (simp add: getTopLevelComments_def sortedComments_def filteredComments_def falsy_def
        sampleComments_def noFilters_def comp_def)
  then have ne: "?V \<noteq> []" by auto
  with ts have neg: "timestamp (hd ?V) < 0" by (cases ?V) auto
  from ne have mem: "hd ?V \<in> set ?V" by simp
  have n: "commentNumber (hd ?V) = 0"
    by (rule numbering_by_timestamp [unfolded Let_def, THEN conjunct2, THEN conjunct2,
          THEN conjunct2, THEN bspec, OF mem, THEN conjunct2, THEN conjunct2, THEN conjunct2,
          THEN conjunct1, THEN mp]) (simp add: d neg)
  show ?thesis by (intro conjI) (fact d v w neg n)+
qed

section \<open>The order of the view\<close>

text \<open>
  C2, as the code has it. The claim as stated fails for \<^verbatim>\<open>commenter\<close>: line 150 compares
  the authors with \<^verbatim>\<open>localeCompare\<close>, the collation of the locale, which is not the
  lexicographic order of the code units. The view is a permutation of the filtered
  top-level comments, in the order of the comparator that \<^verbatim>\<open>sortOption\<close> selects: ascending
  \<^verbatim>\<open>createdAt\<close> for \<^verbatim>\<open>oldest\<close>, descending \<^verbatim>\<open>createdAt\<close> for \<^verbatim>\<open>newest\<close>, ascending author
  in the order of \<^verbatim>\<open>localeCompare\<close> for \<^verbatim>\<open>commenter\<close> (for every consistent comparator in
  its place), ascending timestamp otherwise, where every general comment is before every
  time-anchored one. The sort is stable: the comments of one key are in the view in the
  order they have in the filtered collection. On Scenario A with \<^verbatim>\<open>timecode\<close> and \<^verbatim>\<open>all\<close>
  the view is the comment 2 with number 1, then the comment 1 with number 2.
\<close>

theorem view_sorted_and_stable:
  "(let F = filteredComments comments s t f;
        V = getTopLevelComments lc comments s t f so
    in mset (map Comment.truncate V) = mset F \<and>
       (so = ''oldest'' \<longrightarrow> sorted (map createdAt V)) \<and>
       (so = ''newest'' \<longrightarrow> sorted (rev (map createdAt V))) \<and>
       (so = ''commenter'' \<and> consistent lc \<longrightarrow>
          sorted_wrt (\<lambda>a b. lc a b \<le> 0) (map author V)) \<and>
       (so \<notin> {''oldest'', ''newest'', ''commenter''} \<longrightarrow>
          sorted (map timestamp V) \<and>
          (\<forall>i j. i < length V \<and> j < length V \<and> timestamp (V ! i) < 0 \<and> 0 \<le> timestamp (V ! j)
             \<longrightarrow> i < j)) \<and>
       (so \<in> {''oldest'', ''newest''} \<longrightarrow>
          (\<forall>k. filter (\<lambda>c. createdAt c = k) (map Comment.truncate V) =
               filter (\<lambda>c. createdAt c = k) F)) \<and>
       (so = ''commenter'' \<and> consistent lc \<longrightarrow>
          (\<forall>k. filter (\<lambda>c. author c = k) (map Comment.truncate V) =
               filter (\<lambda>c. author c = k) F)) \<and>
       (so \<notin> {''oldest'', ''newest'', ''commenter''} \<longrightarrow>
          (\<forall>k. filter (\<lambda>c. timestamp c = k) (map Comment.truncate V) =
               filter (\<lambda>c. timestamp c = k) F))) \<and>
   map (\<lambda>x. (id_c x, commentNumber x)) (getTopLevelComments lc
      [\<lparr> id_c = ''1'', parentId = None, text_c = ''hello'', author = ''Bob'',
         createdAt = T1, timestamp = 5, attachments = A1, hasDrawing = D1 \<rparr>,
       \<lparr> id_c = ''2'', parentId = None, text_c = ''internal note'', author = ''Amy'',
         createdAt = T2, timestamp = 2, attachments = A2, hasDrawing = D2 \<rparr>]
      [] ''all'' (f\<lparr>attachments_f := False\<rparr>) ''timecode'') = [(''2'', 1), (''1'', 2)]"
proof -
  define F where "F = filteredComments comments s t f"
  define V where "V = getTopLevelComments lc comments s t f so"
  have tr: "map Comment.truncate V = sortedComments lc so F"
    unfolding V_def F_def by (rule view_truncate)
  have fs: "map createdAt V = map createdAt (sortedComments lc so F)"
    "map author V = map author (sortedComments lc so F)"
    "map timestamp V = map timestamp (sortedComments lc so F)"
    unfolding V_def F_def by (rule view_fields)+
  have p: "mset (map Comment.truncate V) = mset F"
    unfolding tr by (rule mset_sortedComments)
  have o: "sorted (map createdAt V)" if "so = ''oldest''"
    unfolding fs using sortedComments_oldest [of lc F] that
    by (simp add: sorted_wrt_map)
  have n: "sorted (rev (map createdAt V))" if "so = ''newest''"
    unfolding fs using sortedComments_newest [of lc F] that
    by (simp add: sorted_wrt_map sorted_wrt_rev flip: rev_map)
  have c: "sorted_wrt (\<lambda>a b. lc a b \<le> 0) (map author V)" if "so = ''commenter''" "consistent lc"
    unfolding fs using sortedComments_commenter [OF that(2), of F] that(1)
    by (simp add: sorted_wrt_map)
  have ts: "sorted (map timestamp V)" if "so \<notin> {''oldest'', ''newest'', ''commenter''}"
    unfolding fs using sortedComments_timecode [OF that, of lc F]
    by (simp add: sorted_wrt_map)
  have g: "\<forall>i j. i < length V \<and> j < length V \<and> timestamp (V ! i) < 0 \<and> 0 \<le> timestamp (V ! j)
      \<longrightarrow> i < j" if "so \<notin> {''oldest'', ''newest'', ''commenter''}"
    using general_first [OF ts [OF that]] by blast
  have so: "\<forall>k. filter (\<lambda>c. createdAt c = k) (map Comment.truncate V) =
      filter (\<lambda>c. createdAt c = k) F" if "so \<in> {''oldest'', ''newest''}"
    unfolding tr using sortedComments_stable_createdAt [of so _ lc F] that by simp
  have sc: "\<forall>k. filter (\<lambda>c. author c = k) (map Comment.truncate V) =
      filter (\<lambda>c. author c = k) F" if "so = ''commenter''" "consistent lc"
    unfolding tr using sortedComments_stable_author [OF that(2), of _ F] that(1) by simp
  have st: "\<forall>k. filter (\<lambda>c. timestamp c = k) (map Comment.truncate V) =
      filter (\<lambda>c. timestamp c = k) F" if "so \<notin> {''oldest'', ''newest'', ''commenter''}"
    unfolding tr using sortedComments_stable_timestamp [OF that, of _ lc F] by simp
  have a: "map (\<lambda>x. (id_c x, commentNumber x)) (getTopLevelComments lc
      [\<lparr> id_c = ''1'', parentId = None, text_c = ''hello'', author = ''Bob'',
         createdAt = T1, timestamp = 5, attachments = A1, hasDrawing = D1 \<rparr>,
       \<lparr> id_c = ''2'', parentId = None, text_c = ''internal note'', author = ''Amy'',
         createdAt = T2, timestamp = 2, attachments = A2, hasDrawing = D2 \<rparr>]
      [] ''all'' (f\<lparr>attachments_f := False\<rparr>) ''timecode'') = [(''2'', 1), (''1'', 2)]"
    by (simp add: getTopLevelComments_def sortedComments_def filteredComments_def falsy_def
        numberOf_def allTopLevelByTimestamp_def comp_def)
  have o': "so = ''oldest'' \<longrightarrow> sorted (map createdAt V)"
    by (rule impI) (rule o)
  have n': "so = ''newest'' \<longrightarrow> sorted (rev (map createdAt V))"
    by (rule impI) (rule n)
  have c': "so = ''commenter'' \<and> consistent lc \<longrightarrow>
      sorted_wrt (\<lambda>a b. lc a b \<le> 0) (map author V)"
    by (rule impI, erule conjE) (rule c)
  have ts': "so \<notin> {''oldest'', ''newest'', ''commenter''} \<longrightarrow>
      sorted (map timestamp V) \<and>
      (\<forall>i j. i < length V \<and> j < length V \<and> timestamp (V ! i) < 0 \<and> 0 \<le> timestamp (V ! j)
         \<longrightarrow> i < j)"
    by (rule impI, rule conjI) (rule ts, assumption, rule g, assumption)
  have so': "so \<in> {''oldest'', ''newest''} \<longrightarrow>
      (\<forall>k. filter (\<lambda>c. createdAt c = k) (map Comment.truncate V) =
           filter (\<lambda>c. createdAt c = k) F)"
    by (rule impI) (rule so)
  have sc': "so = ''commenter'' \<and> consistent lc \<longrightarrow>
      (\<forall>k. filter (\<lambda>c. author c = k) (map Comment.truncate V) =
           filter (\<lambda>c. author c = k) F)"
    by (rule impI, erule conjE) (rule sc)
  have st': "so \<notin> {''oldest'', ''newest'', ''commenter''} \<longrightarrow>
      (\<forall>k. filter (\<lambda>c. timestamp c = k) (map Comment.truncate V) =
           filter (\<lambda>c. timestamp c = k) F)"
    by (rule impI) (rule st)
  show ?thesis
    unfolding Let_def V_def [symmetric] F_def [symmetric]
    by (intro conjI) (fact p o' n' c' ts' so' sc' st' a)+
qed

text \<open>The claim C2 as stated fails: the collation has \<^verbatim>\<open>amy\<close> before \<^verbatim>\<open>Zed\<close>, and the
  lexicographic order of the code units has \<^verbatim>\<open>Zed\<close> before \<^verbatim>\<open>amy\<close>.\<close>

theorem view_sorted_and_stable_counterexample:
  "map author (getTopLevelComments letterCollation zedAmyComments [] ''all'' noFilters
      ''commenter'') = [''amy'', ''Zed''] \<and>
   \<not> sorted (map author (getTopLevelComments letterCollation zedAmyComments [] ''all''
      noFilters ''commenter''))"
proof -
  have a: "map author (getTopLevelComments letterCollation zedAmyComments [] ''all'' noFilters
      ''commenter'') = [''amy'', ''Zed'']"
    by (simp add: getTopLevelComments_def sortedComments_def filteredComments_def falsy_def
        zedAmyComments_def noFilters_def letterCollation_def toLowerCase_examples comp_def)
  have b: "\<not> sorted [''amy'', ''Zed'']" by simp
  show ?thesis unfolding a using b by simp
qed

theorem view_sorted_and_stable_witness:
  "consistent letterCollation \<and>
   map id_c (getTopLevelComments letterCollation sampleComments [] ''all'' noFilters
      ''commenter'') = [''2'', ''1'', ''3''] \<and>
   sorted_wrt (\<lambda>a b. letterCollation a b \<le> 0)
     (map author (getTopLevelComments letterCollation sampleComments [] ''all'' noFilters
        ''commenter'')) \<and>
   sorted (map createdAt (getTopLevelComments letterCollation sampleComments [] ''all'' noFilters
        ''oldest''))"
proof -
  note vs = view_sorted_and_stable [unfolded Let_def, THEN conjunct1]
  have a: "consistent letterCollation" by (rule consistent_letterCollation)
  have b: "map id_c (getTopLevelComments letterCollation sampleComments [] ''all'' noFilters
      ''commenter'') = [''2'', ''1'', ''3'']"
    by (simp add: getTopLevelComments_def sortedComments_def filteredComments_def falsy_def
        sampleComments_def noFilters_def letterCollation_def toLowerCase_examples comp_def)
  have c: "sorted_wrt (\<lambda>a b. letterCollation a b \<le> 0)
     (map author (getTopLevelComments letterCollation sampleComments [] ''all'' noFilters
        ''commenter''))"
    by (rule vs [THEN conjunct2, THEN conjunct2, THEN conjunct2, THEN conjunct1, rule_format])
      (simp add: a)
  have d: "sorted (map createdAt (getTopLevelComments letterCollation sampleComments [] ''all''
      noFilters ''oldest''))"
    by (rule vs [THEN conjunct2, THEN conjunct1, rule_format]) simp
  show ?thesis by (intro conjI) (fact a b c d)+
qed

section \<open>Replies\<close>

text \<open>
  C7. \<^verbatim>\<open>getReplies\<close> returns exactly the comments whose \<^verbatim>\<open>parentId\<close> is the given id:
  every such comment as often as \<open>comments\<close> has it and no other comment, in the order of
  \<open>comments\<close> (the result is a subsequence of \<open>comments\<close>, whatever the order of
  \<open>comments\<close> is).
\<close>

theorem getReplies_exact_in_order:
  "subseq (getReplies comments pid) comments \<and>
   set (getReplies comments pid) = {c \<in> set comments. parentId c = Some pid} \<and>
   count (mset (getReplies comments pid)) c =
     (if parentId c = Some pid then count (mset comments) c else 0)"
  by (simp add: getReplies_def)

section \<open>The rendered threads\<close>

text \<open>
  C6, as the code has it. The claim as stated fails when a filter hides a top-level
  comment. On a collection whose ids are unique and not empty, the comments of the view
  with \<^verbatim>\<open>getReplies\<close> of each are the comments of the collection, each once, iff every
  top-level comment is in the view and every reply's \<^verbatim>\<open>parentId\<close> is the id of a top-level
  comment; with an empty search term, no type filter and the attachments toggle off, iff
  every reply's \<^verbatim>\<open>parentId\<close> is the id of a top-level comment. On every collection and
  under every filter, a comment whose \<^verbatim>\<open>parentId\<close> is the id of no comment of the view is
  in no \<^verbatim>\<open>getReplies\<close> of a comment of the view.
\<close>

theorem rendered_partition:
  "(distinct (map id_c comments) \<and> [] \<notin> id_c ` set comments \<longrightarrow>
      (mset (renderedComments lc comments s t f so) = mset comments) =
        ((\<forall>c \<in> set comments. isTopLevel c \<longrightarrow>
            c \<in> Comment.truncate ` set (getTopLevelComments lc comments s t f so)) \<and>
         repliesResolve comments)) \<and>
   (distinct (map id_c comments) \<and> [] \<notin> id_c ` set comments \<and>
    s = [] \<and> t \<notin> {''public'', ''internal''} \<and> \<not> attachments_f f \<longrightarrow>
      (mset (renderedComments lc comments s t f so) = mset comments) =
        repliesResolve comments) \<and>
   (\<forall>c :: Comment. (\<forall>x \<in> set (getTopLevelComments lc comments s t f so).
         parentId c \<noteq> Some (id_c x)) \<longrightarrow>
      (\<forall>x \<in> set (getTopLevelComments lc comments s t f so).
         c \<notin> set (getReplies comments (id_c x))))"
proof (intro conjI impI allI)
  assume "distinct (map id_c comments) \<and> [] \<notin> id_c ` set comments"
  then have d: "distinct (map id_c comments)" and e: "[] \<notin> id_c ` set comments" by simp_all
  show "(mset (renderedComments lc comments s t f so) = mset comments) =
      ((\<forall>c \<in> set comments. isTopLevel c \<longrightarrow>
          c \<in> Comment.truncate ` set (getTopLevelComments lc comments s t f so)) \<and>
       repliesResolve comments)"
    unfolding partition_iff_kept_and_resolved [OF d e] in_view_iff by blast
next
  assume a: "distinct (map id_c comments) \<and> [] \<notin> id_c ` set comments \<and>
    s = [] \<and> t \<notin> {''public'', ''internal''} \<and> \<not> attachments_f f"
  then have d: "distinct (map id_c comments)" and e: "[] \<notin> id_c ` set comments" by simp_all
  from a have "keeps s t f c = isTopLevel c" for c
    by (intro keeps_no_filter) simp_all
  then show "(mset (renderedComments lc comments s t f so) = mset comments) =
      repliesResolve comments"
    unfolding partition_iff_kept_and_resolved [OF d e] by simp
next
  fix c :: Comment
  assume "\<forall>x \<in> set (getTopLevelComments lc comments s t f so). parentId c \<noteq> Some (id_c x)"
  then show "\<forall>x \<in> set (getTopLevelComments lc comments s t f so).
      c \<notin> set (getReplies comments (id_c x))"
    by (simp add: getReplies_def)
qed

text \<open>The claim C6 as stated fails: in Scenario A no comment is a reply, and a search term
  that matches nothing leaves nothing of the two comments; with an empty id, the comment
  whose \<^verbatim>\<open>parentId\<close> is empty is rendered twice.\<close>

theorem rendered_partition_counterexample:
  "repliesResolve scenarioA \<and>
   renderedComments letterCollation scenarioA ''zzz'' ''all'' noFilters ''timecode'' = [] \<and>
   mset (renderedComments letterCollation scenarioA ''zzz'' ''all'' noFilters ''timecode'') \<noteq>
     mset scenarioA \<and>
   repliesResolve emptyIdComments \<and>
   map id_c (renderedComments letterCollation emptyIdComments [] ''all'' noFilters ''timecode'') =
     [[], ''b'', ''b''] \<and>
   mset (renderedComments letterCollation emptyIdComments [] ''all'' noFilters ''timecode'') \<noteq>
     mset emptyIdComments"
proof -
  have z: "toLowerCase ''zzz'' = ''zzz''" by code_simp
  have a: "repliesResolve scenarioA"
    by (simp add: repliesResolve_def scenarioA_def isTopLevel_def falsy_def)
  have b: "renderedComments letterCollation scenarioA ''zzz'' ''all'' noFilters ''timecode'' = []"
    by (simp add: renderedComments_def renderedThreads_def getTopLevelComments_def
        sortedComments_def filteredComments_def falsy_def scenarioA_def noFilters_def
        matchesSearch_def searchMatch_def toLowerCase_examples z)
  have c: "mset (renderedComments letterCollation scenarioA ''zzz'' ''all'' noFilters
      ''timecode'') \<noteq> mset scenarioA"
    unfolding b by (simp add: scenarioA_def)
  have d: "repliesResolve emptyIdComments"
    by (simp add: repliesResolve_def emptyIdComments_def isTopLevel_def falsy_def)
  have e: "map id_c (renderedComments letterCollation emptyIdComments [] ''all'' noFilters
      ''timecode'') = [[], ''b'', ''b'']"
    by (simp add: renderedComments_def renderedThreads_def getTopLevelComments_def
        sortedComments_def filteredComments_def falsy_def emptyIdComments_def noFilters_def
        getReplies_def fields_truncate comp_def)
  have f: "mset (renderedComments letterCollation emptyIdComments [] ''all'' noFilters
      ''timecode'') \<noteq> mset emptyIdComments"
  proof
    assume "mset (renderedComments letterCollation emptyIdComments [] ''all'' noFilters
      ''timecode'') = mset emptyIdComments"
    from mset_eq_length [OF this]
    have "length (map id_c (renderedComments letterCollation emptyIdComments [] ''all''
      noFilters ''timecode'')) = length emptyIdComments"
      by (simp only: length_map)
    then show False unfolding e by (simp add: emptyIdComments_def)
  qed
  show ?thesis by (intro conjI) (fact a b c d e f)+
qed

theorem rendered_partition_witness:
  "distinct (map id_c sampleComments) \<and> [] \<notin> id_c ` set sampleComments \<and>
   ''all'' \<notin> {''public'', ''internal''} \<and> \<not> attachments_f noFilters \<and>
   repliesResolve sampleComments \<and>
   mset (renderedComments letterCollation sampleComments [] ''all'' noFilters ''timecode'') =
     mset sampleComments \<and>
   map id_c (renderedComments letterCollation sampleComments [] ''all'' noFilters ''timecode'') =
     [''3'', ''2'', ''1'', ''4'']"
proof -
  have a: "distinct (map id_c sampleComments)" by (simp add: sampleComments_def)
  have b: "[] \<notin> id_c ` set sampleComments" by (simp add: sampleComments_def)
  have c: "''all'' \<notin> {''public'', ''internal''}" by simp
  have d: "\<not> attachments_f noFilters" by (simp add: noFilters_def)
  have e: "repliesResolve sampleComments"
    by (simp add: repliesResolve_def sampleComments_def isTopLevel_def falsy_def)
  have f: "mset (renderedComments letterCollation sampleComments [] ''all'' noFilters
      ''timecode'') = mset sampleComments"
    using rendered_partition [THEN conjunct2, THEN conjunct1, rule_format,
        of sampleComments "[]" "''all''" noFilters letterCollation "''timecode''"] a b c d e
    by simp
  have g: "map id_c (renderedComments letterCollation sampleComments [] ''all'' noFilters
      ''timecode'') = [''3'', ''2'', ''1'', ''4'']"
    by (simp add: renderedComments_def renderedThreads_def getTopLevelComments_def
        sortedComments_def filteredComments_def falsy_def sampleComments_def noFilters_def
        getReplies_def fields_truncate comp_def)
  show ?thesis by (intro conjI) (fact a b c d e f g)+
qed

section \<open>Counts\<close>

text \<open>
  C10. The counts of \<^verbatim>\<open>getCommentCounts\<close> satisfy \<open>all = public + internal\<close>, and
  \<open>all\<close> is the number of top-level comments: the comments that \<^verbatim>\<open>!comment.parentId\<close>
  holds of, whose \<^verbatim>\<open>parentId\<close> is absent or the empty string. \<open>public\<close> and
  \<open>internal\<close> count the top-level comments whose text does not contain, and contains,
  the substring \<^verbatim>\<open>internal\<close>.
\<close>

theorem counts_partition:
  "all_n (getCommentCounts comments) =
     public_n (getCommentCounts comments) + internal_n (getCommentCounts comments) \<and>
   all_n (getCommentCounts comments) =
     length (filter (\<lambda>c. parentId c = None \<or> parentId c = Some []) comments) \<and>
   public_n (getCommentCounts comments) =
     length (filter (\<lambda>c. (parentId c = None \<or> parentId c = Some []) \<and>
        \<not> sublist ''internal'' (text_c c)) comments) \<and>
   internal_n (getCommentCounts comments) =
     length (filter (\<lambda>c. (parentId c = None \<or> parentId c = Some []) \<and>
        sublist ''internal'' (text_c c)) comments)"
proof -
  let ?top = "\<lambda>c::Comment. parentId c = None \<or> parentId c = Some []"
  let ?int = "\<lambda>c::Comment. sublist ''internal'' (text_c c)"
  have top: "falsy (parentId c) = ?top c" for c :: Comment
    by (simp add: falsy_def split: option.splits)
  have all: "all_n (getCommentCounts comments) = length (filter ?top comments)"
    by (simp add: getCommentCounts_def Let_def top)
  have pub: "public_n (getCommentCounts comments) =
      length (filter (\<lambda>c. \<not> ?int c) (filter ?top comments))"
    by (simp add: getCommentCounts_def Let_def top isInternal_sublist)
  have int: "internal_n (getCommentCounts comments) = length (filter ?int (filter ?top comments))"
    by (simp add: getCommentCounts_def Let_def top isInternal_sublist)
  have sum: "length (filter ?int (filter ?top comments)) +
      length (filter (\<lambda>c. \<not> ?int c) (filter ?top comments)) = length (filter ?top comments)"
    by (rule sum_length_filter_compl)
  have conj: "filter P (filter ?top comments) = filter (\<lambda>c. ?top c \<and> P c) comments"
    for P :: "Comment \<Rightarrow> bool"
    by (simp add: conj_commute)
  show ?thesis
    using sum unfolding all pub int conj by simp
qed

section \<open>The type filter\<close>

text \<open>
  C3. Over the comments that the view keeps with \<^verbatim>\<open>typeFilter = all\<close>, the view with
  \<^verbatim>\<open>public\<close> keeps a comment iff its text does not contain the substring
  \<^verbatim>\<open>internal\<close>, and the view with \<^verbatim>\<open>internal\<close> keeps it iff its text contains it, each as
  often as the collection has it; \<^verbatim>\<open>all\<close> keeps every top-level comment that the search
  and the attachment filter keep. On Scenario A, \<^verbatim>\<open>internal\<close> yields the comment 2 alone.
\<close>

theorem typeFilter_keeps:
  "mset (map Comment.truncate (getTopLevelComments lc comments s ''public'' f so)) =
     filter_mset (\<lambda>c. \<not> sublist ''internal'' (text_c c))
       (mset (map Comment.truncate (getTopLevelComments lc comments s ''all'' f so))) \<and>
   mset (map Comment.truncate (getTopLevelComments lc comments s ''internal'' f so)) =
     filter_mset (\<lambda>c. sublist ''internal'' (text_c c))
       (mset (map Comment.truncate (getTopLevelComments lc comments s ''all'' f so))) \<and>
   mset (map Comment.truncate (getTopLevelComments lc comments s ''all'' f so)) =
     filter_mset (\<lambda>c. isTopLevel c \<and> (s = [] \<or> matchesSearch s c) \<and>
        (attachments_f f \<longrightarrow> hasAttachments c)) (mset comments) \<and>
   map id_c (getTopLevelComments lc
      [\<lparr> id_c = ''1'', parentId = None, text_c = ''hello'', author = ''Bob'',
         createdAt = T1, timestamp = 5, attachments = A1, hasDrawing = D1 \<rparr>,
       \<lparr> id_c = ''2'', parentId = None, text_c = ''internal note'', author = ''Amy'',
         createdAt = T2, timestamp = 2, attachments = A2, hasDrawing = D2 \<rparr>]
      [] ''internal'' (f\<lparr>attachments_f := False\<rparr>) ''timecode'') = [''2'']"
proof -
  have a: "keeps s ''public'' f = (\<lambda>c. keeps s ''all'' f c \<and> \<not> sublist ''internal'' (text_c c))"
    by (auto simp: keeps_def isInternal_sublist fun_eq_iff)
  have b: "keeps s ''internal'' f = (\<lambda>c. keeps s ''all'' f c \<and> sublist ''internal'' (text_c c))"
    by (auto simp: keeps_def isInternal_sublist fun_eq_iff)
  have c: "keeps s ''all'' f = (\<lambda>c. isTopLevel c \<and> (s = [] \<or> matchesSearch s c) \<and>
        (attachments_f f \<longrightarrow> hasAttachments c))"
    by (auto simp: keeps_def isTopLevel_def fun_eq_iff)
  have d: "map id_c (getTopLevelComments lc
      [\<lparr> id_c = ''1'', parentId = None, text_c = ''hello'', author = ''Bob'',
         createdAt = T1, timestamp = 5, attachments = A1, hasDrawing = D1 \<rparr>,
       \<lparr> id_c = ''2'', parentId = None, text_c = ''internal note'', author = ''Amy'',
         createdAt = T2, timestamp = 2, attachments = A2, hasDrawing = D2 \<rparr>]
      [] ''internal'' (f\<lparr>attachments_f := False\<rparr>) ''timecode'') = [''2'']"
    by (simp add: getTopLevelComments_def sortedComments_def filteredComments_def falsy_def
        isInternal_def comp_def)
  show ?thesis
    unfolding mset_view
    by (simp only: a b c d filter_filter_mset conj_commute)
qed


theorem typeFilter_keeps_witness:
  "attachments_f (noFilters\<lparr>attachments_f := True\<rparr>) \<and>
   mset (map Comment.truncate (getTopLevelComments letterCollation sampleComments []
      ''all'' (noFilters\<lparr>attachments_f := True\<rparr>) ''timecode'')) =
     filter_mset (\<lambda>c. isTopLevel c \<and> ([] = [] \<or> matchesSearch [] c) \<and>
        (attachments_f (noFilters\<lparr>attachments_f := True\<rparr>) \<longrightarrow> hasAttachments c))
       (mset sampleComments) \<and>
   map id_c (getTopLevelComments letterCollation sampleComments []
      ''all'' (noFilters\<lparr>attachments_f := True\<rparr>) ''timecode'') = [''2'']"
proof -
  have "map id_c (getTopLevelComments letterCollation sampleComments []
      ''all'' (noFilters\<lparr>attachments_f := True\<rparr>) ''timecode'') = [''2'']"
    by (simp add: getTopLevelComments_def sortedComments_def filteredComments_def falsy_def
        sampleComments_def noFilters_def hasAttachments_def comp_def)
  then show ?thesis
    using typeFilter_keeps [of letterCollation sampleComments "[]"
        "noFilters\<lparr>attachments_f := True\<rparr>" "''timecode''"]
    by (simp add: noFilters_def)
qed

section \<open>The search\<close>

text \<open>
  C4, as the code has it. The claim as stated fails outside Latin-1, where
  \<^verbatim>\<open>toLowerCase\<close> depends on the place of a character in the string. For strings of code
  units below 256 the test of lines 123 and 124 is the one of the model, and: over the
  comments that the view keeps with an empty search term, the view with the search term
  \<open>s\<close> keeps a comment iff its text or its author contains \<open>s\<close> case-insensitively; the
  empty search term filters nothing out: it keeps every top-level comment that the type
  filter and the attachment filter keep. On Scenario A, the search term \<^verbatim>\<open>Bob\<close>, in any
  case, yields the comment 1 alone.
\<close>

theorem search_keeps:
  "searchMatch toLowerCase_utf16 (map of_char s) (map of_char (text_c c)) (map of_char (author c)) =
     matchesSearch s c \<and>
   mset (map Comment.truncate (getTopLevelComments lc comments s t f so)) =
     filter_mset (\<lambda>c. containsIgnoringCase (text_c c) s \<or> containsIgnoringCase (author c) s)
       (mset (map Comment.truncate (getTopLevelComments lc comments [] t f so))) \<and>
   mset (map Comment.truncate (getTopLevelComments lc comments [] t f so)) =
     filter_mset (\<lambda>c. isTopLevel c \<and>
        (t = ''public'' \<longrightarrow> \<not> sublist ''internal'' (text_c c)) \<and>
        (t = ''internal'' \<longrightarrow> sublist ''internal'' (text_c c)) \<and>
        (attachments_f f \<longrightarrow> hasAttachments c)) (mset comments) \<and>
   (\<forall>q \<in> {''Bob'', ''bob'', ''BOB''}. map id_c (getTopLevelComments lc
      [\<lparr> id_c = ''1'', parentId = None, text_c = ''hello'', author = ''Bob'',
         createdAt = T1, timestamp = 5, attachments = A1, hasDrawing = D1 \<rparr>,
       \<lparr> id_c = ''2'', parentId = None, text_c = ''internal note'', author = ''Amy'',
         createdAt = T2, timestamp = 2, attachments = A2, hasDrawing = D2 \<rparr>]
      q ''all'' (f\<lparr>attachments_f := False\<rparr>) ''timecode'') = [''1''])"
proof -
  have a: "keeps s t f = (\<lambda>c. keeps [] t f c \<and>
      (containsIgnoringCase (text_c c) s \<or> containsIgnoringCase (author c) s))"
    using matchesSearch_empty
    by (auto simp: keeps_def fun_eq_iff matchesSearch_ignoring_case)
  have b: "keeps [] t f = (\<lambda>c. isTopLevel c \<and>
        (t = ''public'' \<longrightarrow> \<not> sublist ''internal'' (text_c c)) \<and>
        (t = ''internal'' \<longrightarrow> sublist ''internal'' (text_c c)) \<and>
        (attachments_f f \<longrightarrow> hasAttachments c))"
    by (auto simp: keeps_def isTopLevel_def fun_eq_iff isInternal_sublist)
  have d: "\<forall>q \<in> {''Bob'', ''bob'', ''BOB''}. map id_c (getTopLevelComments lc
      [\<lparr> id_c = ''1'', parentId = None, text_c = ''hello'', author = ''Bob'',
         createdAt = T1, timestamp = 5, attachments = A1, hasDrawing = D1 \<rparr>,
       \<lparr> id_c = ''2'', parentId = None, text_c = ''internal note'', author = ''Amy'',
         createdAt = T2, timestamp = 2, attachments = A2, hasDrawing = D2 \<rparr>]
      q ''all'' (f\<lparr>attachments_f := False\<rparr>) ''timecode'') = [''1'']"
    by (simp add: getTopLevelComments_def sortedComments_def filteredComments_def falsy_def
        matchesSearch_def searchMatch_def toLowerCase_examples comp_def)
  have e: "filter_mset (keeps s t f) (mset comments) =
      filter_mset (\<lambda>c. containsIgnoringCase (text_c c) s \<or> containsIgnoringCase (author c) s)
        (filter_mset (keeps [] t f) (mset comments))"
    by (subst a) (simp add: filter_filter_mset conj_commute)
  have w: "searchMatch toLowerCase_utf16 (map of_char s) (map of_char (text_c c))
      (map of_char (author c)) = matchesSearch s c"
    by (simp add: matchesSearch_def searchMatch_of_char)
  show ?thesis
    unfolding mset_view using w d e by (simp only: b)
qed

text \<open>The claim C4 as stated fails: the text is the Greek word in capitals, and the search
  term is the capital sigma, which the text contains as it is. \<^verbatim>\<open>toLowerCase\<close> ends the
  text with the final sigma U+03C2 and turns the search term into the sigma U+03C3, so
  the test of lines 123 and 124 fails and the filter drops the comment.\<close>

theorem search_keeps_counterexample:
  "sublist sigmaUnits odosUnits \<and>
   toLowerCase_utf16 odosUnits = [959, 948, 959, 962] \<and>
   toLowerCase_utf16 sigmaUnits = [963] \<and>
   \<not> searchMatch toLowerCase_utf16 sigmaUnits odosUnits bobUnits \<and>
   filter (\<lambda>(body, author_name). searchMatch toLowerCase_utf16 sigmaUnits body author_name)
     [(odosUnits, bobUnits)] = []"
proof -
  have a: "sublist sigmaUnits odosUnits"
    unfolding sublist_def sigmaUnits_def odosUnits_def
    by (rule exI [of _ "[927, 916, 927]"], rule exI [of _ "[]"]) simp
  have b: "toLowerCase_utf16 odosUnits = [959, 948, 959, 962]"
    by (simp add: toLowerCase_utf16_def odosUnits_def lowerUnit_def casedUnit_def)
  have c: "toLowerCase_utf16 sigmaUnits = [963]"
    by (simp add: toLowerCase_utf16_def sigmaUnits_def lowerUnit_def)
  have d: "toLowerCase_utf16 bobUnits = [98, 111, 98]"
    by (simp add: toLowerCase_utf16_def bobUnits_def lowerUnit_def)
  have e: "\<not> searchMatch toLowerCase_utf16 sigmaUnits odosUnits bobUnits"
    unfolding searchMatch_def b c d by simp
  have f: "filter (\<lambda>(body, author_name).
      searchMatch toLowerCase_utf16 sigmaUnits body author_name) [(odosUnits, bobUnits)] = []"
    using e by simp
  show ?thesis by (intro conjI) (fact a b c e f)+
qed

theorem search_keeps_witness:
  "mset (map Comment.truncate (getTopLevelComments letterCollation sampleComments []
      ''public'' (noFilters\<lparr>attachments_f := True\<rparr>) ''timecode'')) =
     filter_mset (\<lambda>c. isTopLevel c \<and>
        (''public'' = ''public'' \<longrightarrow> \<not> sublist ''internal'' (text_c c)) \<and>
        (''public'' = ''internal'' \<longrightarrow> sublist ''internal'' (text_c c)) \<and>
        (attachments_f (noFilters\<lparr>attachments_f := True\<rparr>) \<longrightarrow> hasAttachments c))
       (mset sampleComments) \<and>
   map id_c (getTopLevelComments letterCollation sampleComments ''AMY''
      ''all'' noFilters ''timecode'') = [''2'']"
proof -
  have "toLowerCase ''AMY'' = ''amy''" "toLowerCase ''Cy'' = ''cy''"
    "toLowerCase ''general'' = ''general''"
    by code_simp+
  then have "map id_c (getTopLevelComments letterCollation sampleComments ''AMY''
      ''all'' noFilters ''timecode'') = [''2'']"
    by (simp add: getTopLevelComments_def sortedComments_def filteredComments_def falsy_def
        sampleComments_def noFilters_def matchesSearch_def searchMatch_def toLowerCase_examples
        comp_def)
  then show ?thesis
    using search_keeps [where lc = letterCollation and comments = sampleComments and s = "[]"
        and t = "''public''" and f = "noFilters\<lparr>attachments_f := True\<rparr>"
        and so = "''timecode''", THEN conjunct2]
    by simp
qed

section \<open>The advanced filters\<close>

text \<open>
  C5. With the toggle \<^verbatim>\<open>attachments\<close> set, every comment of the view has at least one
  attachment; two filter states with the same \<^verbatim>\<open>attachments\<close> toggle give the same view, so
  setting the five other toggles to any values does not change the view.
\<close>

theorem attachments_is_the_only_toggle:
  "(attachments_f f \<longrightarrow>
      (\<forall>x \<in> set (getTopLevelComments lc comments s t f so).
         \<exists>as. attachments x = Some as \<and> 1 \<le> length as)) \<and>
   (attachments_f f' = attachments_f f \<longrightarrow>
      getTopLevelComments lc comments s t f' so = getTopLevelComments lc comments s t f so) \<and>
   getTopLevelComments lc comments s t
      (f\<lparr>annotations := a, completed := b, incomplete := c, unread := d,
         mentionsAndReactions := e\<rparr>) so = getTopLevelComments lc comments s t f so"
proof -
  have 1: "\<exists>as. attachments x = Some as \<and> 1 \<le> length as"
    if "attachments_f f" and x: "x \<in> set (getTopLevelComments lc comments s t f so)" for x
  proof -
    from x have "Comment.truncate x \<in> Comment.truncate ` set (getTopLevelComments lc comments s t f so)"
      by (rule imageI)
    then have "keeps s t f (Comment.truncate x)" unfolding set_view by simp
    with that(1) have "hasAttachments (Comment.truncate x)" by (simp add: keeps_def)
    then show ?thesis
      by (auto simp: hasAttachments_def fields_truncate Suc_le_eq split: option.splits)
  qed
  have 2: "getTopLevelComments lc comments s t f' so = getTopLevelComments lc comments s t f so"
    if "attachments_f f' = attachments_f f" for f'
    using that by (simp add: getTopLevelComments_def filteredComments_def)
  have 3: "getTopLevelComments lc comments s t
      (f\<lparr>annotations := a, completed := b, incomplete := c, unread := d,
         mentionsAndReactions := e\<rparr>) so = getTopLevelComments lc comments s t f so"
    by (rule 2) simp
  from 1 2 3 show ?thesis by blast
qed

theorem attachments_is_the_only_toggle_witness:
  "attachments_f (noFilters\<lparr>attachments_f := True\<rparr>) \<and>
   getTopLevelComments letterCollation sampleComments [] ''all''
      (noFilters\<lparr>attachments_f := True\<rparr>) ''timecode'' \<noteq> [] \<and>
   (\<exists>as. attachments (hd (getTopLevelComments letterCollation sampleComments [] ''all''
      (noFilters\<lparr>attachments_f := True\<rparr>) ''timecode'')) = Some as \<and> 1 \<le> length as) \<and>
   attachments_f (noFilters\<lparr>unread := True\<rparr>) = attachments_f noFilters \<and>
   getTopLevelComments letterCollation sampleComments [] ''all''
      (noFilters\<lparr>unread := True\<rparr>) ''timecode'' =
   getTopLevelComments letterCollation sampleComments [] ''all'' noFilters ''timecode''"
proof -
  let ?F = "noFilters\<lparr>attachments_f := True\<rparr>"
  let ?V = "getTopLevelComments letterCollation sampleComments [] ''all'' ?F ''timecode''"
  have f: "attachments_f ?F" by simp
  have "map id_c ?V = [''2'']"
    by (simp add: getTopLevelComments_def sortedComments_def filteredComments_def falsy_def
        sampleComments_def noFilters_def hasAttachments_def comp_def)
  then have ne: "?V \<noteq> []" by auto
  then have "hd ?V \<in> set ?V" by simp
  with f attachments_is_the_only_toggle [of ?F letterCollation sampleComments "[]" "''all''"
      "''timecode''" "noFilters\<lparr>unread := True\<rparr>"]
  have "\<exists>as. attachments (hd ?V) = Some as \<and> 1 \<le> length as" by blast
  moreover have g: "attachments_f (noFilters\<lparr>unread := True\<rparr>) = attachments_f noFilters" by simp
  moreover from g attachments_is_the_only_toggle [of noFilters letterCollation sampleComments
      "[]" "''all''" "''timecode''" "noFilters\<lparr>unread := True\<rparr>"]
  have "getTopLevelComments letterCollation sampleComments [] ''all''
      (noFilters\<lparr>unread := True\<rparr>) ''timecode'' =
      getTopLevelComments letterCollation sampleComments [] ''all'' noFilters ''timecode''"
    by blast
  ultimately show ?thesis using f ne g by blast
qed

section \<open>Totality and fallbacks\<close>

text \<open>
  C8. The three derivations are total functions without an error result. On the empty
  collection the view and the replies are empty and the counts are all zero; a
  \<^verbatim>\<open>sortOption\<close> outside the four options gives the view of \<^verbatim>\<open>timecode\<close>, and a
  \<^verbatim>\<open>typeFilter\<close> outside \<^verbatim>\<open>all\<close>, \<^verbatim>\<open>public\<close>, \<^verbatim>\<open>internal\<close> gives the view of \<^verbatim>\<open>all\<close>.
\<close>

theorem total_with_fallbacks:
  "getTopLevelComments lc [] s t f so = [] \<and>
   getReplies [] pid = [] \<and>
   getCommentCounts [] = \<lparr> all_n = 0, public_n = 0, internal_n = 0 \<rparr> \<and>
   (so \<notin> {''timecode'', ''oldest'', ''newest'', ''commenter''} \<longrightarrow>
      getTopLevelComments lc comments s t f so =
      getTopLevelComments lc comments s t f ''timecode'') \<and>
   (t \<notin> {''all'', ''public'', ''internal''} \<longrightarrow>
      getTopLevelComments lc comments s t f so =
      getTopLevelComments lc comments s ''all'' f so)"
  by (simp add: getTopLevelComments_def sortedComments_def filteredComments_def
      getReplies_def getCommentCounts_def)

theorem total_with_fallbacks_witness:
  "''rating'' \<notin> {''timecode'', ''oldest'', ''newest'', ''commenter''} \<and>
   getTopLevelComments letterCollation sampleComments [] ''all'' noFilters ''rating'' =
   getTopLevelComments letterCollation sampleComments [] ''all'' noFilters ''timecode'' \<and>
   ''private'' \<notin> {''all'', ''public'', ''internal''} \<and>
   getTopLevelComments letterCollation sampleComments [] ''private'' noFilters ''newest'' =
   getTopLevelComments letterCollation sampleComments [] ''all'' noFilters ''newest'' \<and>
   map id_c (getTopLevelComments letterCollation sampleComments [] ''private'' noFilters
     ''rating'') = [''3'', ''2'', ''1'']"
proof -
  have a: "''rating'' \<notin> {''timecode'', ''oldest'', ''newest'', ''commenter''}" by simp
  have b: "''private'' \<notin> {''all'', ''public'', ''internal''}" by simp
  have c: "map id_c (getTopLevelComments letterCollation sampleComments [] ''private'' noFilters
     ''rating'') = [''3'', ''2'', ''1'']"
    by (simp add: getTopLevelComments_def sortedComments_def filteredComments_def falsy_def
        sampleComments_def noFilters_def comp_def)
  have d: "getTopLevelComments letterCollation sampleComments [] ''all'' noFilters ''rating'' =
      getTopLevelComments letterCollation sampleComments [] ''all'' noFilters ''timecode''"
    by (rule total_with_fallbacks [THEN conjunct2, THEN conjunct2, THEN conjunct2,
          THEN conjunct1, rule_format, OF a])
  have e: "getTopLevelComments letterCollation sampleComments [] ''private'' noFilters ''newest'' =
      getTopLevelComments letterCollation sampleComments [] ''all'' noFilters ''newest''"
    by (rule total_with_fallbacks [THEN conjunct2, THEN conjunct2, THEN conjunct2,
          THEN conjunct2, rule_format, OF b])
  show ?thesis
    by (intro conjI) (fact a b c d e)+
qed

section \<open>The store after a call\<close>

text \<open>
  C9. No derivation writes its input: after \<^verbatim>\<open>getTopLevelComments\<close>, \<^verbatim>\<open>getReplies\<close> and
  \<^verbatim>\<open>getCommentCounts\<close> every array and every object of the store before the call, the
  array \<^verbatim>\<open>comments\<close> and its \<^verbatim>\<open>Comment\<close> objects among them, is in the store with the
  contents it had: the in-place sorts write arrays that the call has allocated. The view
  is a new array, and each of its elements is an object allocated by the call. On the
  store the three derivations compute what the functions on lists compute.
\<close>

theorem store_unchanged:
  "unchanged h (snd (getTopLevelComments_h lc comments s t f so h)) \<and>
   unchanged h (snd (getReplies_h comments pid h)) \<and>
   unchanged h (snd (getCommentCounts_h comments h)) \<and>
   length (arrays h) \<le> fst (getTopLevelComments_h lc comments s t f so h) \<and>
   (\<forall>i \<in> set (arrays (snd (getTopLevelComments_h lc comments s t f so h)) !
        fst (getTopLevelComments_h lc comments s t f so h)). length (numberedObjs h) \<le> i) \<and>
   (comments < length (arrays h) \<longrightarrow>
      deref_numbered (snd (getTopLevelComments_h lc comments s t f so h))
        (fst (getTopLevelComments_h lc comments s t f so h)) =
        getTopLevelComments lc (deref h comments) s t f so) \<and>
   deref (snd (getReplies_h comments pid h)) (fst (getReplies_h comments pid h)) =
     getReplies (deref h comments) pid \<and>
   fst (getCommentCounts_h comments h) = getCommentCounts (deref h comments)"
  by (intro conjI impI)
    (rule getTopLevelComments_h_facts getReplies_h_facts getCommentCounts_h_facts, assumption?)+

theorem store_unchanged_witness:
  "0 < length (arrays sampleHeap) \<and>
   deref sampleHeap 0 = sampleComments \<and>
   unchanged sampleHeap
     (snd (getTopLevelComments_h letterCollation 0 [] ''all'' noFilters ''newest'' sampleHeap)) \<and>
   arrays (snd (getTopLevelComments_h letterCollation 0 [] ''all'' noFilters ''newest''
     sampleHeap)) ! 0 = [0, 1, 2, 3] \<and>
   take (length sampleComments) (commentObjs (snd (getTopLevelComments_h letterCollation 0 []
     ''all'' noFilters ''newest'' sampleHeap))) = sampleComments \<and>
   arrays (snd (getTopLevelComments_h letterCollation 0 [] ''all'' noFilters ''newest''
     sampleHeap)) ! fst (getTopLevelComments_h letterCollation 0 [] ''all'' noFilters ''newest''
     sampleHeap) = [0, 1, 2] \<and>
   deref_numbered
     (snd (getTopLevelComments_h letterCollation 0 [] ''all'' noFilters ''newest'' sampleHeap))
     (fst (getTopLevelComments_h letterCollation 0 [] ''all'' noFilters ''newest'' sampleHeap)) =
     getTopLevelComments letterCollation sampleComments [] ''all'' noFilters ''newest''"
proof -
  let ?R = "getTopLevelComments_h letterCollation 0 [] ''all'' noFilters ''newest'' sampleHeap"
  note su = store_unchanged [of sampleHeap letterCollation 0 "[]" "''all''" noFilters "''newest''"]
  have a: "0 < length (arrays sampleHeap)" by (simp add: sampleHeap_def)
  have b: "deref sampleHeap 0 = sampleComments"
    by (simp add: deref_def sampleHeap_def sampleComments_def)
  have c: "unchanged sampleHeap (snd ?R)" by (rule su [THEN conjunct1])
  have d: "arrays (snd ?R) ! 0 = [0, 1, 2, 3]"
    using unchanged_nth [OF c a] by (simp add: sampleHeap_def)
  have e: "take (length sampleComments) (commentObjs (snd ?R)) = sampleComments"
    using c by (simp add: unchanged_def sampleHeap_def)
  have f: "arrays (snd ?R) ! fst ?R = [0, 1, 2]"
    by (simp add: getTopLevelComments_h_def filteredComments_h_def sortedComments_h_def
        array_filter_h_def array_sort_h_def array_map_number_h_def number_h_def Let_def
        sampleHeap_def sampleComments_def noFilters_def falsy_def nth_append)
  have g: "deref_numbered (snd ?R) (fst ?R) =
      getTopLevelComments letterCollation (deref sampleHeap 0) [] ''all'' noFilters ''newest''"
    by (rule su [THEN conjunct2, THEN conjunct2, THEN conjunct2, THEN conjunct2, THEN conjunct2,
          THEN conjunct1, rule_format, OF a])
  show ?thesis by (intro conjI) (fact a b c d e f g [unfolded b])+
qed

end
